theory Spec2Isabelle
  imports Main
begin

section \<open>Symbols, expressions and statements\<close>

text \<open>
  The semantic analysis of deimoslang (\<^verbatim>\<open>src/deimoslang/sem.py\<close>) works on the classes of
  the parser and of \<^verbatim>\<open>types.py\<close>. The constructors below are the ones \<^verbatim>\<open>sem.py\<close>
  builds or matches, with the fields it reads or writes.

  A \<^verbatim>\<open>Symbol(literal, id, kind)\<close> is compared by its three fields. Every symbol that reaches
  a scope is made by the analyzer with an id of its own, so comparing the fields and
  comparing object identity agree on them.
\<close>

datatype symbol_kind = variable | block | label

datatype symbol = Symbol (literal: string) (sym_id: int) (kind: symbol_kind)

datatype line_info = LineInfo int int int

datatype token_kind = keyword_not | other_kind string

datatype token = Token token_kind string line_info

text \<open>
  \<open>OpaqueExpression\<close> stands for the expression classes of the parser that the analysis
  never builds or inspects (\<^verbatim>\<open>sem_expr\<close> returns every expression as it is).
\<close>

datatype expression =
    IdentExpression (ident: string)
  | SymExpression (sym: symbol)
  | NumberExpression int
  | UnaryExpression token expression
  | GreaterExpression expression expression
  | SubExpression expression expression
  | ReadVarExpr expression
  | OpaqueExpression string

text \<open>Of a command the analysis reads only \<^verbatim>\<open>command.player_selector\<close>.\<close>

datatype command = Command (player_selector: string) (data: "string list")

text \<open>
  Python is untyped: where a statement is expected the value may be any statement or
  \<^verbatim>\<open>None\<close> (\<^verbatim>\<open>sem_stmt\<close> returns \<^verbatim>\<open>None\<close> for a routine definition, and assigns what it
  returns to the \<^verbatim>\<open>body\<close> and branch fields). \<open>NoneStmt\<close> is that value.
\<close>

datatype stmt =
    BlockDefStmt expression stmt
  | StmtList "stmt list"
  | CallStmt expression
  | CommandStmt command
  | IfStmt expression stmt stmt
  | LoopStmt stmt
  | WhileStmt expression stmt
  | UntilStmt expression stmt
  | TimesStmt int stmt
  | ReturnStmt
  | BreakStmt
  | DefVarStmt symbol
  | WriteVarStmt symbol expression
  | KillVarStmt symbol
  | UntilRegion expression stmt
  | NoneStmt

text \<open>
  \<^verbatim>\<open>stmt.body.stmts\<close>: only a \<^verbatim>\<open>StmtList\<close> has the attribute; on anything else Python raises
  \<^verbatim>\<open>AttributeError\<close> (the \<open>None\<close> here).
\<close>

fun stmts_of :: "stmt \<Rightarrow> stmt list option" where
  "stmts_of (StmtList ss) = Some ss"
| "stmts_of _ = None"

section \<open>Errors\<close>

text \<open>
  Every \<^verbatim>\<open>raise SemError(...)\<close> of the source is one constructor of \<open>sem_error\<close>, named
  after its message. \<open>AttributeError\<close> and \<open>IndexError\<close> are the exceptions of Python
  itself: an attribute read on the wrong class or on \<^verbatim>\<open>None\<close>, and \<^verbatim>\<open>pop\<close> on an empty list.
\<close>

datatype sem_error =
    UnableToFindSymbol string
  | AlreadyActiveVariable symbol
  | NotLocalToBlock
  | InactiveVariable symbol
  | OnlyIdentExpressionAllowed
  | MalformedCall
  | ReturnOutsideBlock
  | BreakOutsideLoop
  | UnhandledStatement

datatype error = SemError sem_error | AttributeError | IndexError

section \<open>Scope\<close>

text \<open>
  A scope points to its parent. While a child scope is the current one the analyzer
  changes no ancestor (every mutation goes through \<^verbatim>\<open>self.scope\<close>), so the parent held by
  the child is the parent as it will be found again on leaving the child.
\<close>

datatype scope = Scope
  (parent: "scope option")
  (syms: "symbol list")
  (unique_player_selectors: "string set")
  (active_vars: "symbol list")
  (cleaned_vars: "symbol set")
  (is_block: bool)

definition new_block :: "scope \<Rightarrow> scope" where
  "new_block self = Scope (Some self) [] {} [] {} True"

definition new_branch :: "scope \<Rightarrow> scope" where
  "new_branch self = Scope (Some self) [] {} (active_vars self) {} False"

fun lookup_block_by_name :: "scope \<Rightarrow> string \<Rightarrow> error + symbol" where
  "lookup_block_by_name (Scope p ss u a c b) lit =
     (case find (\<lambda>s. kind s = block \<and> literal s = lit) (rev ss) of
        Some s \<Rightarrow> Inr s
      | None \<Rightarrow>
          (case p of
             Some q \<Rightarrow> lookup_block_by_name q lit
           | None \<Rightarrow> Inl (SemError (UnableToFindSymbol lit))))"

text \<open>
  \<^verbatim>\<open>is_block_local_var\<close> walks up until the symbol is found or a block scope has been
  searched. A branch scope with no parent would make \<^verbatim>\<open>cur\<close> \<^verbatim>\<open>None\<close> and the next
  \<^verbatim>\<open>cur._syms\<close> raise.
\<close>

fun is_block_local_var :: "scope \<Rightarrow> symbol \<Rightarrow> error + bool" where
  "is_block_local_var (Scope p ss u a c b) x =
     (if x \<in> set ss then Inr True
      else if b then Inr False
      else (case p of
              None \<Rightarrow> Inl AttributeError
            | Some q \<Rightarrow> is_block_local_var q x))"

definition put_sym :: "scope \<Rightarrow> symbol \<Rightarrow> scope" where
  "put_sym self x =
     Scope (parent self) (syms self @ [x]) (unique_player_selectors self)
       (active_vars self) (cleaned_vars self) (is_block self)"

definition activate_var :: "scope \<Rightarrow> symbol \<Rightarrow> error + scope" where
  "activate_var self x =
     (if x \<in> set (active_vars self) then Inl (SemError (AlreadyActiveVariable x))
      else Inr (Scope (parent self) (syms self) (unique_player_selectors self)
                  (active_vars self @ [x]) (cleaned_vars self) (is_block self)))"

definition kill_var :: "scope \<Rightarrow> symbol \<Rightarrow> error + scope" where
  "kill_var self x =
     (case is_block_local_var self x of
        Inl e \<Rightarrow> Inl e
      | Inr loc \<Rightarrow>
          if \<not> loc then Inl (SemError NotLocalToBlock)
          else if x \<notin> set (active_vars self) then Inl (SemError (InactiveVariable x))
          else Inr (Scope (parent self) (syms self) (unique_player_selectors self)
                      (remove1 x (active_vars self)) (insert x (cleaned_vars self))
                      (is_block self)))"

definition add_player_selector :: "scope \<Rightarrow> string \<Rightarrow> scope" where
  "add_player_selector self s =
     Scope (parent self) (syms self) (insert s (unique_player_selectors self))
       (active_vars self) (cleaned_vars self) (is_block self)"

section \<open>Analyzer\<close>

text \<open>
  \<open>defnodes\<close> records the assignments \<^verbatim>\<open>sym.defnode = stmt\<close>, in order: the symbol object is
  shared with the scope and with the tree, so the back reference is kept beside them.
\<close>

record analyzer =
  scope :: scope
  next_sym_id :: int
  block_defs :: "stmt list"
  stmts :: "stmt list"
  block_nesting_level :: int
  loop_nesting_level :: int
  loop_nesting_stack :: "int list"
  defnodes :: "(symbol \<times> stmt) list"

definition Analyzer :: "stmt list \<Rightarrow> analyzer" where
  "Analyzer ss =
     \<lparr> scope = Scope None [] {} [] {} True, next_sym_id = 0, block_defs = [],
       stmts = ss, block_nesting_level = 0, loop_nesting_level = 0,
       loop_nesting_stack = [], defnodes = [] \<rparr>"

text \<open>
  \<^verbatim>\<open>self.scope = self.scope.parent\<close>. With no parent Python stores \<^verbatim>\<open>None\<close> and fails at the
  next use of the scope; the model fails at once.
\<close>

definition scope_to_parent :: "analyzer \<Rightarrow> error + analyzer" where
  "scope_to_parent st =
     (case parent (scope st) of
        None \<Rightarrow> Inl AttributeError
      | Some p \<Rightarrow> Inr (st\<lparr>scope := p\<rparr>))"

definition open_block :: "analyzer \<Rightarrow> analyzer" where
  "open_block st =
     st\<lparr> scope := new_block (scope st),
         loop_nesting_stack := loop_nesting_stack st @ [loop_nesting_level st],
         loop_nesting_level := 0,
         block_nesting_level := block_nesting_level st + 1 \<rparr>"

definition close_block :: "analyzer \<Rightarrow> error + analyzer" where
  "close_block st =
     (case scope_to_parent st of
        Inl e \<Rightarrow> Inl e
      | Inr st1 \<Rightarrow>
          if loop_nesting_stack st1 = [] then Inl IndexError
          else Inr (st1\<lparr> loop_nesting_level := last (loop_nesting_stack st1),
                         loop_nesting_stack := butlast (loop_nesting_stack st1),
                         block_nesting_level := block_nesting_level st1 - 1 \<rparr>))"

definition open_loop :: "analyzer \<Rightarrow> analyzer" where
  "open_loop st =
     st\<lparr> scope := new_branch (scope st),
         loop_nesting_level := loop_nesting_level st + 1 \<rparr>"

definition close_loop :: "analyzer \<Rightarrow> error + analyzer" where
  "close_loop st =
     (case scope_to_parent st of
        Inl e \<Rightarrow> Inl e
      | Inr st1 \<Rightarrow> Inr (st1\<lparr> loop_nesting_level := loop_nesting_level st1 - 1 \<rparr>))"

definition gen_sym_id :: "analyzer \<Rightarrow> int \<times> analyzer" where
  "gen_sym_id st = (next_sym_id st, st\<lparr> next_sym_id := next_sym_id st + 1 \<rparr>)"

definition gen_block_sym :: "analyzer \<Rightarrow> string \<Rightarrow> symbol \<times> analyzer" where
  "gen_block_sym st name =
     (case gen_sym_id st of
        (i, st1) \<Rightarrow>
          (let s = Symbol name i block in (s, st1\<lparr> scope := put_sym (scope st1) s \<rparr>)))"

definition gen_var_sym :: "analyzer \<Rightarrow> string \<Rightarrow> symbol \<times> analyzer" where
  "gen_var_sym st name =
     (case gen_sym_id st of
        (i, st1) \<Rightarrow>
          (let s = Symbol ('':'' @ name @ '':'') i variable
           in (s, st1\<lparr> scope := put_sym (scope st1) s \<rparr>)))"

definition gen_label_sym :: "analyzer \<Rightarrow> string \<Rightarrow> symbol \<times> analyzer" where
  "gen_label_sym st name =
     (case gen_sym_id st of
        (i, st1) \<Rightarrow>
          (let s = Symbol ('':'' @ name) i label
           in (s, st1\<lparr> scope := put_sym (scope st1) s \<rparr>)))"

definition def_var :: "analyzer \<Rightarrow> error + (symbol \<times> analyzer)" where
  "def_var st =
     (case gen_var_sym st ''anonymous'' of
        (var_sym, st1) \<Rightarrow>
          (case activate_var (scope st1) var_sym of
             Inl e \<Rightarrow> Inl e
           | Inr sc \<Rightarrow> Inr (var_sym, st1\<lparr> scope := sc \<rparr>)))"

definition mark_var_dead :: "analyzer \<Rightarrow> symbol \<Rightarrow> error + analyzer" where
  "mark_var_dead st x =
     (case kill_var (scope st) x of
        Inl e \<Rightarrow> Inl e
      | Inr sc \<Rightarrow> Inr (st\<lparr> scope := sc \<rparr>))"

text \<open>
  \<^verbatim>\<open>for var in reversed(self.scope._active_vars)\<close> runs over the list that \<^verbatim>\<open>kill_var\<close>
  shortens meanwhile. Python's reverse iterator keeps an index, starting at the last
  position; each round it stops if the index is outside the list as it is then, and
  otherwise yields the element there and steps down. \<open>cleanup_loop (Suc i)\<close> is the round
  at index \<open>i\<close>, \<open>cleanup_loop 0\<close> the iterator run past the front.
\<close>

fun cleanup_loop :: "nat \<Rightarrow> analyzer \<Rightarrow> stmt list \<Rightarrow> error + (stmt list \<times> analyzer)" where
  "cleanup_loop 0 st res = Inr (res, st)"
| "cleanup_loop (Suc i) st res =
     (if i < length (active_vars (scope st)) then
        (let var = active_vars (scope st) ! i in
         case mark_var_dead st var of
           Inl e \<Rightarrow> Inl e
         | Inr st1 \<Rightarrow> cleanup_loop i st1 (res @ [KillVarStmt var]))
      else Inr (res, st))"

definition gen_cleanup_all_vars :: "analyzer \<Rightarrow> error + (stmt \<times> analyzer)" where
  "gen_cleanup_all_vars st =
     (case cleanup_loop (length (active_vars (scope st))) st [] of
        Inl e \<Rightarrow> Inl e
      | Inr (res, st1) \<Rightarrow> Inr (StmtList res, st1))"

definition sem_expr :: "expression \<Rightarrow> expression" where
  "sem_expr e = e"

text \<open>
  The measure of the recursion of \<^verbatim>\<open>sem_stmt\<close>: a routine definition and a counted
  repetition recurse on a statement they build (the body with one statement appended,
  inside a \<^verbatim>\<open>WhileStmt\<close> for the latter), so they weigh more than it does.
\<close>

fun weight :: "stmt \<Rightarrow> nat" where
  "weight (BlockDefStmt n b) = 2 + weight b"
| "weight (StmtList ss) = 2 + sum_list (map weight ss)"
| "weight (IfStmt e t f) = 1 + weight t + weight f"
| "weight (LoopStmt b) = 1 + weight b"
| "weight (WhileStmt e b) = 1 + weight b"
| "weight (UntilStmt e b) = 1 + weight b"
| "weight (TimesStmt n b) = 3 + weight b"
| "weight (UntilRegion e b) = 1 + weight b"
| "weight _ = 1"

text \<open>
  \<^verbatim>\<open>sem_stmt\<close> returns the rewritten statement (\<open>NoneStmt\<close> for \<^verbatim>\<open>None\<close>) and the analyzer
  after its mutations; \<open>sem_stmts\<close> is the loop of the \<^verbatim>\<open>StmtList\<close> case, which keeps the
  results that are truthy (every statement object is, \<^verbatim>\<open>None\<close> is not).
\<close>

function sem_stmt :: "analyzer \<Rightarrow> stmt \<Rightarrow> error + (stmt \<times> analyzer)"
  and sem_stmts :: "analyzer \<Rightarrow> stmt list \<Rightarrow> error + (stmt list \<times> analyzer)"
where
  "sem_stmt st (BlockDefStmt name body) =
     (case name of
        IdentExpression nm \<Rightarrow>
          (case gen_block_sym st nm of
             (s, st1) \<Rightarrow>
               (case stmts_of body of
                  None \<Rightarrow> Inl AttributeError
                | Some ss \<Rightarrow>
                    (case sem_stmt (open_block st1) (StmtList (ss @ [ReturnStmt])) of
                       Inl e \<Rightarrow> Inl e
                     | Inr (body1, st2) \<Rightarrow>
                         (case close_block st2 of
                            Inl e \<Rightarrow> Inl e
                          | Inr st3 \<Rightarrow>
                              (let d = BlockDefStmt (SymExpression s) body1 in
                               Inr (NoneStmt,
                                    st3\<lparr> defnodes := defnodes st3 @ [(s, d)],
                                         block_defs := block_defs st3 @ [d] \<rparr>))))))
      | _ \<Rightarrow> Inl (SemError OnlyIdentExpressionAllowed))"
| "sem_stmt st (StmtList ss) =
     (case sem_stmts st ss of
        Inl e \<Rightarrow> Inl e
      | Inr (res, st1) \<Rightarrow> Inr (StmtList res, st1))"
| "sem_stmt st (CallStmt name) =
     (case name of
        IdentExpression nm \<Rightarrow>
          (case lookup_block_by_name (scope st) nm of
             Inl e \<Rightarrow> Inl e
           | Inr s \<Rightarrow> Inr (CallStmt (SymExpression s), st))
      | SymExpression s \<Rightarrow> Inr (CallStmt (SymExpression s), st)
      | _ \<Rightarrow> Inl (SemError MalformedCall))"
| "sem_stmt st (CommandStmt c) =
     Inr (CommandStmt c, st\<lparr> scope := add_player_selector (scope st) (player_selector c) \<rparr>)"
| "sem_stmt st (IfStmt e branch_true branch_false) =
     (let e1 = sem_expr e in
      case sem_stmt (st\<lparr> scope := new_branch (scope st) \<rparr>) branch_true of
        Inl x \<Rightarrow> Inl x
      | Inr (t1, st1) \<Rightarrow>
          (case scope_to_parent st1 of
             Inl x \<Rightarrow> Inl x
           | Inr st2 \<Rightarrow>
               (case sem_stmt (st2\<lparr> scope := new_branch (scope st2) \<rparr>) branch_false of
                  Inl x \<Rightarrow> Inl x
                | Inr (f1, st3) \<Rightarrow>
                    (case scope_to_parent st3 of
                       Inl x \<Rightarrow> Inl x
                     | Inr st4 \<Rightarrow> Inr (IfStmt e1 t1 f1, st4)))))"
| "sem_stmt st (LoopStmt body) =
     (case sem_stmt (open_loop st) body of
        Inl x \<Rightarrow> Inl x
      | Inr (body1, st1) \<Rightarrow>
          (case close_loop st1 of
             Inl x \<Rightarrow> Inl x
           | Inr st2 \<Rightarrow> Inr (LoopStmt body1, st2)))"
| "sem_stmt st (WhileStmt e body) =
     (let e1 = sem_expr e in
      case sem_stmt (open_loop st) body of
        Inl x \<Rightarrow> Inl x
      | Inr (body1, st1) \<Rightarrow>
          (case close_loop st1 of
             Inl x \<Rightarrow> Inl x
           | Inr st2 \<Rightarrow> Inr (WhileStmt e1 body1, st2)))"
| "sem_stmt st (UntilStmt e body) =
     (let st0 = open_loop st; expr = sem_expr e in
      case sem_stmt st0 body of
        Inl x \<Rightarrow> Inl x
      | Inr (body1, st1) \<Rightarrow>
          (case close_loop st1 of
             Inl x \<Rightarrow> Inl x
           | Inr st2 \<Rightarrow>
               Inr (IfStmt expr (StmtList [])
                      (StmtList
                         [UntilRegion expr
                            (WhileStmt
                               (UnaryExpression
                                  (Token keyword_not ''not'' (LineInfo (- 1) (- 1) (- 1))) expr)
                               body1)]),
                    st2)))"
| "sem_stmt st (TimesStmt num body) =
     (case def_var st of
        Inl x \<Rightarrow> Inl x
      | Inr (var_sym, st1) \<Rightarrow>
          (let prologue = [DefVarStmt var_sym, WriteVarStmt var_sym (NumberExpression num)];
               epilogue = [KillVarStmt var_sym];
               cond = GreaterExpression (ReadVarExpr (SymExpression var_sym)) (NumberExpression 0)
           in case stmts_of body of
                None \<Rightarrow> Inl AttributeError
              | Some ss \<Rightarrow>
                  (case sem_stmt st1
                          (WhileStmt cond
                             (StmtList
                                (ss @ [WriteVarStmt var_sym
                                         (SubExpression (ReadVarExpr (SymExpression var_sym))
                                            (NumberExpression 1))]))) of
                     Inl x \<Rightarrow> Inl x
                   | Inr (w, st2) \<Rightarrow>
                       (case mark_var_dead st2 var_sym of
                          Inl x \<Rightarrow> Inl x
                        | Inr st3 \<Rightarrow> Inr (StmtList (prologue @ [w] @ epilogue), st3)))))"
| "sem_stmt st ReturnStmt =
     (if block_nesting_level st \<le> 0 then Inl (SemError ReturnOutsideBlock)
      else (case gen_cleanup_all_vars st of
              Inl x \<Rightarrow> Inl x
            | Inr (c, st1) \<Rightarrow> Inr (StmtList [c, ReturnStmt], st1)))"
| "sem_stmt st BreakStmt =
     (if loop_nesting_level st \<le> 0 then Inl (SemError BreakOutsideLoop)
      else Inr (BreakStmt, st))"
| "sem_stmt st (DefVarStmt x) = Inr (DefVarStmt x, st)"
| "sem_stmt st (WriteVarStmt x e) = Inr (WriteVarStmt x e, st)"
| "sem_stmt st (KillVarStmt x) = Inr (KillVarStmt x, st)"
| "sem_stmt st (UntilRegion e b) = Inl (SemError UnhandledStatement)"
| "sem_stmt st NoneStmt = Inl (SemError UnhandledStatement)"
| "sem_stmts st [] = Inr ([], st)"
| "sem_stmts st (inner # rest) =
     (case sem_stmt st inner of
        Inl e \<Rightarrow> Inl e
      | Inr (semmed, st1) \<Rightarrow>
          (case sem_stmts st1 rest of
             Inl e \<Rightarrow> Inl e
           | Inr (res, st2) \<Rightarrow>
               Inr ((if semmed \<noteq> NoneStmt then [semmed] else []) @ res, st2)))"
  by pat_completeness auto

termination
proof -
  have pos: "0 < weight s" for s
    by (cases s) auto
  have body: "weight b = 2 + sum_list (map weight ss)" if "stmts_of b = Some ss" for b ss
    using that by (cases b) auto
  show ?thesis
    by (relation "measure (\<lambda>x. case x of Inl (st, s) \<Rightarrow> weight s
                                       | Inr (st, ss) \<Rightarrow> 1 + sum_list (map weight ss))")
       (auto dest: body simp: pos)
qed

definition analyze_program :: "analyzer \<Rightarrow> error + analyzer" where
  "analyze_program st =
     (case sem_stmts st (stmts st) of
        Inl e \<Rightarrow> Inl e
      | Inr (res, st1) \<Rightarrow> Inr (st1\<lparr> stmts := res \<rparr>))"

section \<open>Predicates of the properties\<close>

text \<open>
  \<open>frame st st'\<close>: the step from \<open>st\<close> to \<open>st'\<close> stays in the same scope object (same
  parent, same kind), leaves the nesting counters and the saved counters as they were, only
  appends to the symbols declared in the scope and never lowers the symbol counter.
\<close>

definition frame :: "analyzer \<Rightarrow> analyzer \<Rightarrow> bool" where
  "frame st st' \<longleftrightarrow>
     parent (scope st') = parent (scope st) \<and>
     is_block (scope st') = is_block (scope st) \<and>
     block_nesting_level st' = block_nesting_level st \<and>
     loop_nesting_level st' = loop_nesting_level st \<and>
     loop_nesting_stack st' = loop_nesting_stack st \<and>
     next_sym_id st \<le> next_sym_id st' \<and>
     (\<exists>ext. syms (scope st') = syms (scope st) @ ext)"

text \<open>
  The invariant of the analysis: the variables active in the current scope are distinct, each
  is local to the current block and has an id below the symbol counter, and the two nesting
  counters are not negative.
\<close>

definition analyzer_inv :: "analyzer \<Rightarrow> bool" where
  "analyzer_inv st \<longleftrightarrow>
     distinct (active_vars (scope st)) \<and>
     list_all (\<lambda>v. is_block_local_var (scope st) v = Inr True \<and> sym_id v < next_sym_id st)
       (active_vars (scope st)) \<and>
     0 \<le> block_nesting_level st \<and> 0 \<le> loop_nesting_level st"

text \<open>The errors of \<^verbatim>\<open>activate_var\<close> and \<^verbatim>\<open>kill_var\<close>.\<close>

fun lifetime_error :: "error \<Rightarrow> bool" where
  "lifetime_error (SemError (AlreadyActiveVariable x)) = True"
| "lifetime_error (SemError NotLocalToBlock) = True"
| "lifetime_error (SemError (InactiveVariable x)) = True"
| "lifetime_error _ = False"

text \<open>
  The scopes from a scope upward to the nearest block boundary, the block scope included:
  the part of the chain the spec calls the lexical path that does not cross a block boundary.
\<close>

fun block_path :: "scope \<Rightarrow> scope list" where
  "block_path (Scope p ss u a c b) =
     Scope p ss u a c b #
       (if b then [] else (case p of None \<Rightarrow> [] | Some q \<Rightarrow> block_path q))"

text \<open>The symbol is declared in a scope of that path.\<close>

definition declared_before_block :: "scope \<Rightarrow> symbol \<Rightarrow> bool" where
  "declared_before_block sc x = list_ex (\<lambda>s. x \<in> set (syms s)) (block_path sc)"

text \<open>The chain ends in a block scope, as every chain grown from the analyzer's root does.\<close>

definition rooted :: "scope \<Rightarrow> bool" where
  "rooted sc = is_block (last (block_path sc))"

text \<open>The scope chain, innermost scope first.\<close>

fun scope_chain :: "scope \<Rightarrow> scope list" where
  "scope_chain (Scope p ss u a c b) =
     Scope p ss u a c b # (case p of None \<Rightarrow> [] | Some q \<Rightarrow> scope_chain q)"

text \<open>
  The routine symbols named \<open>lit\<close> that are declared in the chain, innermost scope first and,
  within a scope, the latest declaration first.
\<close>

definition visible_blocks :: "scope \<Rightarrow> string \<Rightarrow> symbol list" where
  "visible_blocks sc lit =
     concat (map (\<lambda>s. filter (\<lambda>x. kind x = block \<and> literal x = lit) (rev (syms s)))
               (scope_chain sc))"

text \<open>
  \<open>reaches a b\<close>: the analyzer gets from state \<open>a\<close> to state \<open>b\<close> by mutations of its own, in
  any number and order. Every assignment of \<^verbatim>\<open>sem.py\<close> to the analyzer or to the current scope
  is a step: drawing an id, declaring a symbol in the current scope, activating and killing a
  variable there, recording a player selector, entering and leaving scopes, collecting a
  routine definition, storing the rewritten program; and so is every method built from them.
  So the relation holds between the state right after an id is drawn and every state the
  same run passes through later.
\<close>

inductive reaches :: "analyzer \<Rightarrow> analyzer \<Rightarrow> bool" where
  start: "reaches a a"
| by_gen_sym_id: "reaches a b \<Longrightarrow> gen_sym_id b = (i, c) \<Longrightarrow> reaches a c"
| by_put_sym: "reaches a b \<Longrightarrow> reaches a (b\<lparr> scope := put_sym (scope b) x \<rparr>)"
| by_activate_var:
    "reaches a b \<Longrightarrow> activate_var (scope b) x = Inr sc \<Longrightarrow> reaches a (b\<lparr> scope := sc \<rparr>)"
| by_kill_var:
    "reaches a b \<Longrightarrow> kill_var (scope b) x = Inr sc \<Longrightarrow> reaches a (b\<lparr> scope := sc \<rparr>)"
| by_add_player_selector:
    "reaches a b \<Longrightarrow> reaches a (b\<lparr> scope := add_player_selector (scope b) p \<rparr>)"
| by_gen_block_sym: "reaches a b \<Longrightarrow> gen_block_sym b nm = (s, c) \<Longrightarrow> reaches a c"
| by_gen_var_sym: "reaches a b \<Longrightarrow> gen_var_sym b nm = (s, c) \<Longrightarrow> reaches a c"
| by_gen_label_sym: "reaches a b \<Longrightarrow> gen_label_sym b nm = (s, c) \<Longrightarrow> reaches a c"
| by_def_var: "reaches a b \<Longrightarrow> def_var b = Inr (s, c) \<Longrightarrow> reaches a c"
| by_mark_var_dead: "reaches a b \<Longrightarrow> mark_var_dead b s = Inr c \<Longrightarrow> reaches a c"
| by_cleanup: "reaches a b \<Longrightarrow> gen_cleanup_all_vars b = Inr (r, c) \<Longrightarrow> reaches a c"
| by_open_block: "reaches a b \<Longrightarrow> reaches a (open_block b)"
| by_close_block: "reaches a b \<Longrightarrow> close_block b = Inr c \<Longrightarrow> reaches a c"
| by_open_loop: "reaches a b \<Longrightarrow> reaches a (open_loop b)"
| by_close_loop: "reaches a b \<Longrightarrow> close_loop b = Inr c \<Longrightarrow> reaches a c"
| by_new_branch: "reaches a b \<Longrightarrow> reaches a (b\<lparr> scope := new_branch (scope b) \<rparr>)"
| by_scope_to_parent: "reaches a b \<Longrightarrow> scope_to_parent b = Inr c \<Longrightarrow> reaches a c"
| by_collect:
    "reaches a b \<Longrightarrow>
     reaches a (b\<lparr> defnodes := defnodes b @ [(s, d)], block_defs := block_defs b @ [d] \<rparr>)"
| by_store_stmts: "reaches a b \<Longrightarrow> reaches a (b\<lparr> stmts := rs \<rparr>)"
| by_sem_stmt: "reaches a b \<Longrightarrow> sem_stmt b s = Inr (r, c) \<Longrightarrow> reaches a c"
| by_sem_stmts: "reaches a b \<Longrightarrow> sem_stmts b ss = Inr (rs, c) \<Longrightarrow> reaches a c"
| by_analyze_program: "reaches a b \<Longrightarrow> analyze_program b = Inr c \<Longrightarrow> reaches a c"

text \<open>
  \<open>generates a s a'\<close>: in state \<open>a\<close> the analyzer makes the symbol \<open>s\<close>, by one of its three
  symbol generators or by \<^verbatim>\<open>def_var\<close>, and is in state \<open>a'\<close> afterwards. No other code of
  \<^verbatim>\<open>sem.py\<close> builds a \<^verbatim>\<open>Symbol\<close>.
\<close>

definition generates :: "analyzer \<Rightarrow> symbol \<Rightarrow> analyzer \<Rightarrow> bool" where
  "generates a s a' \<longleftrightarrow>
     (\<exists>nm. gen_block_sym a nm = (s, a')) \<or> (\<exists>nm. gen_var_sym a nm = (s, a')) \<or>
     (\<exists>nm. gen_label_sym a nm = (s, a')) \<or> def_var a = Inr (s, a')"

text \<open>
  The routine symbols a statement records in \<open>defnodes\<close> are new entries at the end, with
  pairwise distinct ids, all from the counter before the statement up to the counter after.
\<close>

definition new_defnodes :: "analyzer \<Rightarrow> analyzer \<Rightarrow> (symbol \<times> stmt) list \<Rightarrow> bool" where
  "new_defnodes st st' new \<longleftrightarrow>
     defnodes st' = defnodes st @ new \<and> distinct (map (sym_id \<circ> fst) new) \<and>
     list_all (\<lambda>p. next_sym_id st \<le> sym_id (fst p) \<and> sym_id (fst p) < next_sym_id st') new"

text \<open>The statement is a routine definition.\<close>

fun is_block_def :: "stmt \<Rightarrow> bool" where
  "is_block_def (BlockDefStmt n b) = True"
| "is_block_def _ = False"

text \<open>A routine definition anywhere in a statement.\<close>

fun has_block_def :: "stmt \<Rightarrow> bool" where
  "has_block_def (BlockDefStmt n b) = True"
| "has_block_def (StmtList ss) = list_ex has_block_def ss"
| "has_block_def (IfStmt e t f) = (has_block_def t \<or> has_block_def f)"
| "has_block_def (LoopStmt b) = has_block_def b"
| "has_block_def (WhileStmt e b) = has_block_def b"
| "has_block_def (UntilStmt e b) = has_block_def b"
| "has_block_def (TimesStmt n b) = has_block_def b"
| "has_block_def (UntilRegion e b) = has_block_def b"
| "has_block_def _ = False"

section \<open>What an analysis step leaves alone\<close>

lemma frame_refl: "frame st st"
  by (simp add: frame_def)

lemma frame_trans: "frame a b \<Longrightarrow> frame b c \<Longrightarrow> frame a c"
  by (auto simp: frame_def)

lemma kill_var_sel:
  assumes "kill_var sc x = Inr sc'"
  shows "parent sc' = parent sc" "is_block sc' = is_block sc" "syms sc' = syms sc"
    "active_vars sc' = remove1 x (active_vars sc)" "cleaned_vars sc' = insert x (cleaned_vars sc)"
    "unique_player_selectors sc' = unique_player_selectors sc"
    "x \<in> set (active_vars sc)" "is_block_local_var sc x = Inr True"
  using assms by (auto simp: kill_var_def split: sum.splits if_splits)

lemma mark_var_dead_Inr:
  "mark_var_dead st x = Inr st' \<longleftrightarrow> (\<exists>sc. kill_var (scope st) x = Inr sc \<and> st' = st\<lparr>scope := sc\<rparr>)"
  by (auto simp: mark_var_dead_def split: sum.splits)

lemma mark_var_dead_frame: "mark_var_dead st x = Inr st' \<Longrightarrow> frame st st'"
  by (auto simp: mark_var_dead_Inr frame_def kill_var_sel)

lemma cleanup_loop_frame: "cleanup_loop n st res = Inr (res', st') \<Longrightarrow> frame st st'"
proof (induction n st res rule: cleanup_loop.induct)
  case (1 st res)
  then show ?case by (simp add: frame_refl)
next
  case (2 i st res)
  show ?case
  proof (cases "i < length (active_vars (scope st))")
    case True
    with "2.prems" obtain st1 where
      m: "mark_var_dead st (active_vars (scope st) ! i) = Inr st1" and
      r: "cleanup_loop i st1 (res @ [KillVarStmt (active_vars (scope st) ! i)]) = Inr (res', st')"
      by (auto simp: Let_def split: sum.splits)
    from "2.IH"[OF True refl m r] mark_var_dead_frame[OF m] show ?thesis
      by (rule frame_trans[rotated])
  next
    case False
    with "2.prems" show ?thesis by (simp add: frame_refl)
  qed
qed

lemma gen_cleanup_frame: "gen_cleanup_all_vars st = Inr (c, st') \<Longrightarrow> frame st st'"
  by (auto simp: gen_cleanup_all_vars_def split: sum.splits dest: cleanup_loop_frame)

lemma def_var_Inr:
  "def_var st = Inr (v, st') \<Longrightarrow>
     v = Symbol '':anonymous:'' (next_sym_id st) variable \<and>
     v \<notin> set (active_vars (scope st)) \<and>
     st' = st\<lparr> next_sym_id := next_sym_id st + 1,
               scope := Scope (parent (scope st)) (syms (scope st) @ [v])
                          (unique_player_selectors (scope st)) (active_vars (scope st) @ [v])
                          (cleaned_vars (scope st)) (is_block (scope st)) \<rparr>"
  by (auto simp: def_var_def gen_var_sym_def gen_sym_id_def put_sym_def activate_var_def Let_def
      split: sum.splits if_splits)

lemma def_var_frame: "def_var st = Inr (v, st') \<Longrightarrow> frame st st'"
  by (auto dest!: def_var_Inr simp: frame_def)

lemma open_loop_close:
  assumes "frame (open_loop st) b"
  shows "close_loop b = Inr (b\<lparr> scope := scope st, loop_nesting_level := loop_nesting_level st \<rparr>)"
  using assms
  by (auto simp: frame_def open_loop_def close_loop_def scope_to_parent_def new_branch_def)

lemma branch_close:
  assumes "frame (st\<lparr> scope := new_branch (scope st) \<rparr>) b"
  shows "scope_to_parent b = Inr (b\<lparr> scope := scope st \<rparr>)"
  using assms
  by (auto simp: frame_def scope_to_parent_def new_branch_def)

lemma open_block_close:
  assumes "frame (open_block st) b"
  shows "close_block b = Inr (b\<lparr> scope := scope st, loop_nesting_level := loop_nesting_level st,
            loop_nesting_stack := loop_nesting_stack st,
            block_nesting_level := block_nesting_level st \<rparr>)"
  using assms
  by (auto simp: frame_def open_block_def close_block_def scope_to_parent_def new_block_def)

lemma sem_BlockDef_Inr:
  assumes "sem_stmt st (BlockDefStmt name body) = Inr (r, st')"
  obtains nm s st1 ss body1 st2 st3 where
    "name = IdentExpression nm" "gen_block_sym st nm = (s, st1)" "stmts_of body = Some ss"
    "sem_stmt (open_block st1) (StmtList (ss @ [ReturnStmt])) = Inr (body1, st2)"
    "close_block st2 = Inr st3" "r = NoneStmt"
    "st' = st3\<lparr> defnodes := defnodes st3 @ [(s, BlockDefStmt (SymExpression s) body1)],
                 block_defs := block_defs st3 @ [BlockDefStmt (SymExpression s) body1] \<rparr>"
  using assms
  by (auto simp: Let_def split: expression.splits prod.splits option.splits sum.splits)

lemma sem_StmtList_Inr:
  assumes "sem_stmt st (StmtList ss) = Inr (r, st')"
  obtains res where "sem_stmts st ss = Inr (res, st')" "r = StmtList res"
  using assms by (auto split: sum.splits)

lemma sem_If_Inr:
  assumes "sem_stmt st (IfStmt e t f) = Inr (r, st')"
  obtains t1 st1 st2 f1 st3 where
    "sem_stmt (st\<lparr> scope := new_branch (scope st) \<rparr>) t = Inr (t1, st1)"
    "scope_to_parent st1 = Inr st2"
    "sem_stmt (st2\<lparr> scope := new_branch (scope st2) \<rparr>) f = Inr (f1, st3)"
    "scope_to_parent st3 = Inr st'" "r = IfStmt (sem_expr e) t1 f1"
  using assms by (auto simp: Let_def split: sum.splits)

lemma sem_Loop_Inr:
  assumes "sem_stmt st (LoopStmt body) = Inr (r, st')"
  obtains body1 st1 where
    "sem_stmt (open_loop st) body = Inr (body1, st1)" "close_loop st1 = Inr st'"
    "r = LoopStmt body1"
  using assms by (auto split: sum.splits)

lemma sem_While_Inr:
  assumes "sem_stmt st (WhileStmt e body) = Inr (r, st')"
  obtains body1 st1 where
    "sem_stmt (open_loop st) body = Inr (body1, st1)" "close_loop st1 = Inr st'"
    "r = WhileStmt (sem_expr e) body1"
  using assms by (auto simp: Let_def split: sum.splits)

lemma sem_Until_Inr:
  assumes "sem_stmt st (UntilStmt e body) = Inr (r, st')"
  obtains body1 st1 where
    "sem_stmt (open_loop st) body = Inr (body1, st1)" "close_loop st1 = Inr st'"
    "r = IfStmt (sem_expr e) (StmtList [])
           (StmtList [UntilRegion (sem_expr e)
              (WhileStmt (UnaryExpression (Token keyword_not ''not'' (LineInfo (- 1) (- 1) (- 1)))
                            (sem_expr e)) body1)])"
  using assms by (auto simp: Let_def split: sum.splits)

lemma sem_Times_Inr:
  assumes "sem_stmt st (TimesStmt num body) = Inr (r, st')"
  obtains v st1 ss w st2 where
    "def_var st = Inr (v, st1)" "stmts_of body = Some ss"
    "sem_stmt st1
       (WhileStmt (GreaterExpression (ReadVarExpr (SymExpression v)) (NumberExpression 0))
          (StmtList (ss @ [WriteVarStmt v
             (SubExpression (ReadVarExpr (SymExpression v)) (NumberExpression 1))])))
      = Inr (w, st2)"
    "mark_var_dead st2 v = Inr st'"
    "r = StmtList [DefVarStmt v, WriteVarStmt v (NumberExpression num), w, KillVarStmt v]"
  using assms by (auto simp: Let_def split: sum.splits option.splits)

lemma sem_Return_Inr:
  assumes "sem_stmt st ReturnStmt = Inr (r, st')"
  obtains c where "0 < block_nesting_level st" "gen_cleanup_all_vars st = Inr (c, st')"
    "r = StmtList [c, ReturnStmt]"
  using assms by (auto split: sum.splits if_splits)

lemma sem_stmts_Cons_Inr:
  assumes "sem_stmts st (x # xs) = Inr (rs, st')"
  obtains y st1 ys where "sem_stmt st x = Inr (y, st1)" "sem_stmts st1 xs = Inr (ys, st')"
    "rs = (if y \<noteq> NoneStmt then [y] else []) @ ys"
  using assms by (auto split: sum.splits)

lemma sem_induct [case_names BlockDef StmtList Call Command If Loop While Until Times
    Return Break DefVar WriteVar KillVar UntilRegion NoneStmt Nil Cons]:
  assumes "\<And>st name body.
      (\<And>nm s st1 ss. name = IdentExpression nm \<Longrightarrow> gen_block_sym st nm = (s, st1) \<Longrightarrow>
          stmts_of body = Some ss \<Longrightarrow> P (open_block st1) (StmtList (ss @ [ReturnStmt]))) \<Longrightarrow>
      P st (BlockDefStmt name body)"
    and "\<And>st ss. Q st ss \<Longrightarrow> P st (StmtList ss)"
    and "\<And>st name. P st (CallStmt name)"
    and "\<And>st c. P st (CommandStmt c)"
    and "\<And>st e t f.
      P (st\<lparr> scope := new_branch (scope st) \<rparr>) t \<Longrightarrow>
      (\<And>t1 st1 st2. sem_stmt (st\<lparr> scope := new_branch (scope st) \<rparr>) t = Inr (t1, st1) \<Longrightarrow>
          scope_to_parent st1 = Inr st2 \<Longrightarrow> P (st2\<lparr> scope := new_branch (scope st2) \<rparr>) f) \<Longrightarrow>
      P st (IfStmt e t f)"
    and "\<And>st body. P (open_loop st) body \<Longrightarrow> P st (LoopStmt body)"
    and "\<And>st e body. P (open_loop st) body \<Longrightarrow> P st (WhileStmt e body)"
    and "\<And>st e body. P (open_loop st) body \<Longrightarrow> P st (UntilStmt e body)"
    and "\<And>st num body.
      (\<And>v st1 ss. def_var st = Inr (v, st1) \<Longrightarrow> stmts_of body = Some ss \<Longrightarrow>
          P st1 (WhileStmt (GreaterExpression (ReadVarExpr (SymExpression v)) (NumberExpression 0))
                  (StmtList (ss @ [WriteVarStmt v
                     (SubExpression (ReadVarExpr (SymExpression v)) (NumberExpression 1))])))) \<Longrightarrow>
      P st (TimesStmt num body)"
    and "\<And>st. P st ReturnStmt"
    and "\<And>st. P st BreakStmt"
    and "\<And>st x. P st (DefVarStmt x)"
    and "\<And>st x e. P st (WriteVarStmt x e)"
    and "\<And>st x. P st (KillVarStmt x)"
    and "\<And>st e b. P st (UntilRegion e b)"
    and "\<And>st. P st NoneStmt"
    and "\<And>st. Q st []"
    and "\<And>st x xs.
      P st x \<Longrightarrow> (\<And>y st1. sem_stmt st x = Inr (y, st1) \<Longrightarrow> Q st1 xs) \<Longrightarrow> Q st (x # xs)"
  shows "P st s" and "Q st ss"
proof (induction st s and st ss rule: sem_stmt_sem_stmts.induct)
  case (1 st name body)
  show ?case by (rule assms(1)) (simp add: "1.IH")
next
  case (5 st e t f)
  show ?case by (rule assms(5)) (simp_all add: "5.IH")
next
  case (8 st e body)
  show ?case by (rule assms(8)) (simp add: "8.IH")
next
  case (9 st num body)
  show ?case by (rule assms(9)) (simp add: "9.IH")
next
  case (18 st inner rest)
  show ?case by (rule assms(18)) (simp_all add: "18.IH")
qed (simp_all add: assms)

lemma sem_frame:
  "sem_stmt st s = Inr (r, st') \<Longrightarrow> frame st st'"
  "sem_stmts st ss = Inr (rs, st') \<Longrightarrow> frame st st'"
proof (induction st s and st ss arbitrary: r st' and rs st' rule: sem_induct)
  case (BlockDef st name body)
  from BlockDef.prems obtain nm s st1 ss body1 st2 st3 where
    n: "name = IdentExpression nm" and g: "gen_block_sym st nm = (s, st1)" and
    b: "stmts_of body = Some ss" and
    r: "sem_stmt (open_block st1) (StmtList (ss @ [ReturnStmt])) = Inr (body1, st2)" and
    c: "close_block st2 = Inr st3" and
    st': "st' = st3\<lparr> defnodes := defnodes st3 @ [(s, BlockDefStmt (SymExpression s) body1)],
                 block_defs := block_defs st3 @ [BlockDefStmt (SymExpression s) body1] \<rparr>"
    by (rule sem_BlockDef_Inr)
  have f: "frame (open_block st1) st2"
    using BlockDef.IH[OF n g b r] .
  have "frame st st1" using g
    by (auto simp: gen_block_sym_def gen_sym_id_def put_sym_def frame_def Let_def)
  moreover have "frame st1 st'"
    using c f unfolding open_block_close[OF f] st'
    by (auto simp: frame_def open_block_def)
  ultimately show ?case by (rule frame_trans)
next
  case (StmtList st ss)
  then show ?case by (auto split: sum.splits)
next
  case (Call st name)
  then show ?case by (auto simp: frame_refl split: expression.splits sum.splits)
next
  case (Command st c)
  then show ?case by (auto simp: frame_def add_player_selector_def)
next
  case (If st e t f)
  from If.prems obtain t1 st1 st2 f1 st3 where
    t: "sem_stmt (st\<lparr> scope := new_branch (scope st) \<rparr>) t = Inr (t1, st1)" and
    p1: "scope_to_parent st1 = Inr st2" and
    f: "sem_stmt (st2\<lparr> scope := new_branch (scope st2) \<rparr>) f = Inr (f1, st3)" and
    p2: "scope_to_parent st3 = Inr st'"
    by (rule sem_If_Inr)
  have f1: "frame (st\<lparr> scope := new_branch (scope st) \<rparr>) st1"
    using If.IH(1)[OF t] .
  have f2: "frame (st2\<lparr> scope := new_branch (scope st2) \<rparr>) st3"
    using If.IH(2)[OF t p1 f] .
  from p1 have s2: "st2 = st1\<lparr> scope := scope st \<rparr>"
    unfolding branch_close[OF f1] by simp
  from p2 have s4: "st' = st3\<lparr> scope := scope st2 \<rparr>"
    unfolding branch_close[OF f2] by simp
  show ?case using f1 f2 unfolding s2 s4 by (auto simp: frame_def)
next
  case (Loop st body)
  from Loop.prems obtain body1 st1 where
    b: "sem_stmt (open_loop st) body = Inr (body1, st1)" and c: "close_loop st1 = Inr st'"
    by (rule sem_Loop_Inr)
  have f: "frame (open_loop st) st1" using Loop.IH[OF b] .
  show ?case using c f unfolding open_loop_close[OF f] by (auto simp: frame_def open_loop_def)
next
  case (While st e body)
  from While.prems obtain body1 st1 where
    b: "sem_stmt (open_loop st) body = Inr (body1, st1)" and c: "close_loop st1 = Inr st'"
    by (rule sem_While_Inr)
  have f: "frame (open_loop st) st1" using While.IH[OF b] .
  show ?case using c f unfolding open_loop_close[OF f] by (auto simp: frame_def open_loop_def)
next
  case (Until st e body)
  from Until.prems obtain body1 st1 where
    b: "sem_stmt (open_loop st) body = Inr (body1, st1)" and c: "close_loop st1 = Inr st'"
    by (rule sem_Until_Inr)
  have f: "frame (open_loop st) st1" using Until.IH[OF b] .
  show ?case using c f unfolding open_loop_close[OF f] by (auto simp: frame_def open_loop_def)
next
  case (Times st num body)
  from Times.prems obtain v st1 ss w st2 where
    d: "def_var st = Inr (v, st1)" and b: "stmts_of body = Some ss" and
    w: "sem_stmt st1
       (WhileStmt (GreaterExpression (ReadVarExpr (SymExpression v)) (NumberExpression 0))
          (StmtList (ss @ [WriteVarStmt v
             (SubExpression (ReadVarExpr (SymExpression v)) (NumberExpression 1))])))
      = Inr (w, st2)" and
    m: "mark_var_dead st2 v = Inr st'"
    by (rule sem_Times_Inr)
  have "frame st1 st2"
    using Times.IH[OF d b w] .
  with def_var_frame[OF d] mark_var_dead_frame[OF m] show ?case
    by (blast intro: frame_trans)
next
  case (Return st)
  then show ?case by (auto split: sum.splits if_splits dest: gen_cleanup_frame)
next
  case (Break st)
  then show ?case by (auto simp: frame_refl split: if_splits)
next
  case (Nil st)
  then show ?case by (simp add: frame_refl)
next
  case (Cons st inner rest)
  from Cons.prems obtain y st1 ys where
    a: "sem_stmt st inner = Inr (y, st1)" and b: "sem_stmts st1 rest = Inr (ys, st')"
    by (rule sem_stmts_Cons_Inr)
  from Cons.IH(1)[OF a] Cons.IH(2)[OF a b] show ?case by (rule frame_trans)
qed (simp_all add: frame_refl)

lemma sem_branching_scope:
  assumes "sem_stmt st s = Inr (r, st')"
    and "(\<exists>e t f. s = IfStmt e t f) \<or> (\<exists>b. s = LoopStmt b) \<or> (\<exists>e b. s = WhileStmt e b)
         \<or> (\<exists>e b. s = UntilStmt e b)"
  shows "scope st' = scope st"
proof -
  have loop: "scope st' = scope st"
    if b: "sem_stmt (open_loop st) body = Inr (body1, st1)" and c: "close_loop st1 = Inr st'"
    for body body1 st1
  proof -
    have f: "frame (open_loop st) st1" using b by (rule sem_frame)
    show ?thesis using c unfolding open_loop_close[OF f] by auto
  qed
  from assms(2) consider
    (If) e t f where "s = IfStmt e t f" | (Loop) b where "s = LoopStmt b"
    | (While) e b where "s = WhileStmt e b" | (Until) e b where "s = UntilStmt e b"
    by blast
  then show ?thesis
  proof cases
    case If
    from assms(1)[unfolded If] obtain t1 st1 st2 f1 st3 where
      t: "sem_stmt (st\<lparr> scope := new_branch (scope st) \<rparr>) t = Inr (t1, st1)" and
      p1: "scope_to_parent st1 = Inr st2" and
      f: "sem_stmt (st2\<lparr> scope := new_branch (scope st2) \<rparr>) f = Inr (f1, st3)" and
      p2: "scope_to_parent st3 = Inr st'"
      by (rule sem_If_Inr)
    have f1: "frame (st\<lparr> scope := new_branch (scope st) \<rparr>) st1"
      using t by (rule sem_frame)
    have f2: "frame (st2\<lparr> scope := new_branch (scope st2) \<rparr>) st3"
      using f by (rule sem_frame)
    from p1 have s2: "st2 = st1\<lparr> scope := scope st \<rparr>"
      unfolding branch_close[OF f1] by simp
    from p2 have s4: "st' = st3\<lparr> scope := scope st2 \<rparr>"
      unfolding branch_close[OF f2] by simp
    show ?thesis unfolding s4 s2 by simp
  next
    case Loop
    from assms(1)[unfolded Loop] show ?thesis by (rule sem_Loop_Inr) (rule loop)
  next
    case While
    from assms(1)[unfolded While] show ?thesis by (rule sem_While_Inr) (rule loop)
  next
    case Until
    from assms(1)[unfolded Until] show ?thesis by (rule sem_Until_Inr) (rule loop)
  qed
qed

lemma is_block_local_var_unfold:
  "is_block_local_var sc x =
     (if x \<in> set (syms sc) then Inr True
      else if is_block sc then Inr False
      else (case parent sc of None \<Rightarrow> Inl AttributeError | Some q \<Rightarrow> is_block_local_var q x))"
  by (cases sc) simp

lemma is_block_local_var_cong:
  "parent sc' = parent sc \<Longrightarrow> syms sc' = syms sc \<Longrightarrow> is_block sc' = is_block sc \<Longrightarrow>
   is_block_local_var sc' x = is_block_local_var sc x"
  by (subst (1 2) is_block_local_var_unfold) simp

lemma is_block_local_var_mono:
  "parent sc' = parent sc \<Longrightarrow> syms sc' = syms sc @ ext \<Longrightarrow> is_block sc' = is_block sc \<Longrightarrow>
   is_block_local_var sc x = Inr True \<Longrightarrow> is_block_local_var sc' x = Inr True"
  by (subst is_block_local_var_unfold, subst (asm) is_block_local_var_unfold)
     (auto split: if_splits)

lemma is_block_local_var_branch:
  "is_block_local_var (new_branch sc) x = is_block_local_var sc x"
  by (simp add: new_branch_def)

lemma analyzer_inv_frame:
  assumes "analyzer_inv st" "frame st st'" "active_vars (scope st') = active_vars (scope st)"
  shows "analyzer_inv st'"
proof -
  from assms(2) obtain ext where
    "parent (scope st') = parent (scope st)" "is_block (scope st') = is_block (scope st)"
    "syms (scope st') = syms (scope st) @ ext" "next_sym_id st \<le> next_sym_id st'"
    "block_nesting_level st' = block_nesting_level st"
    "loop_nesting_level st' = loop_nesting_level st"
    by (auto simp: frame_def)
  with assms(1,3) show ?thesis
    by (auto simp: analyzer_inv_def list_all_iff intro: is_block_local_var_mono)
qed

lemma cleanup_loop_ok:
  assumes "distinct (active_vars (scope st))"
    and "list_all (\<lambda>v. is_block_local_var (scope st) v = Inr True) (active_vars (scope st))"
    and "n = length (active_vars (scope st))"
  shows "cleanup_loop n st res =
           Inr (res @ map KillVarStmt (rev (active_vars (scope st))),
                st\<lparr> scope := Scope (parent (scope st)) (syms (scope st))
                               (unique_player_selectors (scope st)) []
                               (cleaned_vars (scope st) \<union> set (active_vars (scope st)))
                               (is_block (scope st)) \<rparr>)"
  using assms
proof (induction n arbitrary: st res)
  case 0
  then show ?case by (cases "scope st") simp
next
  case (Suc n)
  let ?sc = "scope st"
  from Suc.prems(3) obtain ys y where a: "active_vars ?sc = ys @ [y]" and n: "length ys = n"
    by (metis length_Suc_conv_rev)
  have y: "active_vars ?sc ! n = y" using a n by (simp add: nth_append)
  from Suc.prems(1) a have ny: "y \<notin> set ys" and dy: "distinct ys" by auto
  from Suc.prems(2) a have ly: "is_block_local_var ?sc y = Inr True"
    and lys: "list_all (\<lambda>v. is_block_local_var ?sc v = Inr True) ys" by auto
  define sc1 where "sc1 = Scope (parent ?sc) (syms ?sc) (unique_player_selectors ?sc) ys
                           (insert y (cleaned_vars ?sc)) (is_block ?sc)"
  have rm: "remove1 y (ys @ [y]) = ys" using ny by (simp add: remove1_append)
  have k: "mark_var_dead st y = Inr (st\<lparr> scope := sc1 \<rparr>)"
    using ly a rm by (simp add: mark_var_dead_def kill_var_def sc1_def)
  have e: "is_block_local_var sc1 v = is_block_local_var ?sc v" for v
    by (rule is_block_local_var_cong) (simp_all add: sc1_def)
  have l1: "list_all (\<lambda>v. is_block_local_var sc1 v = Inr True) ys"
    using lys by (simp add: e)
  have "cleanup_loop n (st\<lparr> scope := sc1 \<rparr>) (res @ [KillVarStmt y]) =
          Inr ((res @ [KillVarStmt y]) @ map KillVarStmt (rev ys),
               st\<lparr> scope := Scope (parent ?sc) (syms ?sc) (unique_player_selectors ?sc) []
                               (insert y (cleaned_vars ?sc) \<union> set ys) (is_block ?sc) \<rparr>)"
    using Suc.IH[of "st\<lparr> scope := sc1 \<rparr>" "res @ [KillVarStmt y]"] dy l1 n
    by (simp add: sc1_def)
  moreover have "insert y (cleaned_vars ?sc) \<union> set ys = cleaned_vars ?sc \<union> set (ys @ [y])"
    by auto
  ultimately show ?case using k y a Suc.prems(3) by (simp add: Let_def)
qed

lemma gen_cleanup_ok:
  assumes "analyzer_inv st"
  shows "gen_cleanup_all_vars st =
           Inr (StmtList (map KillVarStmt (rev (active_vars (scope st)))),
                st\<lparr> scope := Scope (parent (scope st)) (syms (scope st))
                               (unique_player_selectors (scope st)) []
                               (cleaned_vars (scope st) \<union> set (active_vars (scope st)))
                               (is_block (scope st)) \<rparr>)"
proof -
  from assms have "distinct (active_vars (scope st))"
    and "list_all (\<lambda>v. is_block_local_var (scope st) v = Inr True) (active_vars (scope st))"
    by (auto simp: analyzer_inv_def list_all_iff)
  from cleanup_loop_ok[OF this refl, of "[]"] show ?thesis
    by (simp add: gen_cleanup_all_vars_def)
qed

lemma def_var_ok:
  assumes "analyzer_inv st"
  shows "\<exists>v st1. def_var st = Inr (v, st1) \<and> analyzer_inv st1 \<and>
           v = Symbol '':anonymous:'' (next_sym_id st) variable \<and>
           v \<notin> set (active_vars (scope st)) \<and>
           active_vars (scope st1) = active_vars (scope st) @ [v] \<and>
           syms (scope st1) = syms (scope st) @ [v]"
proof -
  let ?v = "Symbol '':anonymous:'' (next_sym_id st) variable"
  from assms have nv: "?v \<notin> set (active_vars (scope st))"
    by (auto simp: analyzer_inv_def list_all_iff)
  then obtain st1 where d: "def_var st = Inr (?v, st1)"
    by (auto simp: def_var_def gen_var_sym_def gen_sym_id_def put_sym_def activate_var_def Let_def)
  note r = def_var_Inr[OF d]
  let ?sc = "scope st"
  from r have sc1: "scope st1 = Scope (parent ?sc) (syms ?sc @ [?v]) (unique_player_selectors ?sc)
                      (active_vars ?sc @ [?v]) (cleaned_vars ?sc) (is_block ?sc)"
    and n1: "next_sym_id st1 = next_sym_id st + 1"
    and b1: "block_nesting_level st1 = block_nesting_level st"
    and l1: "loop_nesting_level st1 = loop_nesting_level st"
    by simp_all
  have old: "is_block_local_var (scope st1) u = Inr True"
    if "is_block_local_var ?sc u = Inr True" for u
    using _ _ _ that by (rule is_block_local_var_mono[where ext = "[?v]"]) (simp_all add: sc1)
  have new: "is_block_local_var (scope st1) ?v = Inr True"
    by (subst is_block_local_var_unfold) (simp add: sc1)
  have "analyzer_inv st1"
    using assms nv old new
    by (auto simp: analyzer_inv_def list_all_iff sc1 n1 b1 l1 simp del: is_block_local_var.simps)
  with d nv sc1 show ?thesis by auto
qed

lemma analyzer_inv_restore:
  assumes "analyzer_inv a" "scope b = scope a" "next_sym_id a \<le> next_sym_id b"
    "0 \<le> block_nesting_level b" "0 \<le> loop_nesting_level b"
  shows "analyzer_inv b"
  using assms by (auto simp: analyzer_inv_def list_all_iff)

lemma analyzer_inv_branch:
  assumes "analyzer_inv st"
  shows "analyzer_inv (st\<lparr> scope := new_branch (scope st) \<rparr>)" "analyzer_inv (open_loop st)"
  using assms
  by (auto simp: analyzer_inv_def list_all_iff open_loop_def is_block_local_var_branch
      simp del: is_block_local_var.simps)
     (simp_all add: new_branch_def)

lemma analyzer_inv_block:
  assumes "analyzer_inv st"
  shows "analyzer_inv (open_block st)"
  using assms by (auto simp: analyzer_inv_def open_block_def new_block_def)

lemma gen_block_sym_inv:
  assumes "analyzer_inv st" "gen_block_sym st nm = (s, st1)"
  shows "analyzer_inv st1"
proof (rule analyzer_inv_frame[OF assms(1)])
  show "frame st st1" using assms(2)
    by (auto simp: gen_block_sym_def gen_sym_id_def put_sym_def frame_def Let_def)
  show "active_vars (scope st1) = active_vars (scope st)" using assms(2)
    by (auto simp: gen_block_sym_def gen_sym_id_def put_sym_def Let_def)
qed

lemma sem_BlockDef_scope:
  assumes "sem_stmt st (BlockDefStmt name body) = Inr (r, st')"
  shows "\<exists>nm. name = IdentExpression nm \<and>
           scope st' = put_sym (scope st) (Symbol nm (next_sym_id st) block)"
proof -
  from assms obtain nm s st1 ss body1 st2 st3 where
    n: "name = IdentExpression nm" and g: "gen_block_sym st nm = (s, st1)" and
    r: "sem_stmt (open_block st1) (StmtList (ss @ [ReturnStmt])) = Inr (body1, st2)" and
    c: "close_block st2 = Inr st3" and
    st': "st' = st3\<lparr> defnodes := defnodes st3 @ [(s, BlockDefStmt (SymExpression s) body1)],
                 block_defs := block_defs st3 @ [BlockDefStmt (SymExpression s) body1] \<rparr>"
    by (rule sem_BlockDef_Inr)
  have f: "frame (open_block st1) st2" using r by (rule sem_frame)
  from c have "scope st3 = scope st1" unfolding open_block_close[OF f] by auto
  with g n st' show ?thesis
    by (auto simp: gen_block_sym_def gen_sym_id_def Let_def)
qed

lemma sem_Times_scope:
  assumes "sem_stmt st (TimesStmt num body) = Inr (r, st')"
  shows "active_vars (scope st') = active_vars (scope st)"
proof -
  from assms obtain v st1 ss w st2 where
    d: "def_var st = Inr (v, st1)" and
    w: "sem_stmt st1
       (WhileStmt (GreaterExpression (ReadVarExpr (SymExpression v)) (NumberExpression 0))
          (StmtList (ss @ [WriteVarStmt v
             (SubExpression (ReadVarExpr (SymExpression v)) (NumberExpression 1))])))
      = Inr (w, st2)" and
    m: "mark_var_dead st2 v = Inr st'"
    by (rule sem_Times_Inr)
  from w have s2: "scope st2 = scope st1" by (rule sem_branching_scope) blast
  from def_var_Inr[OF d] have nv: "v \<notin> set (active_vars (scope st))"
    and a1: "active_vars (scope st1) = active_vars (scope st) @ [v]" by auto
  from m obtain sc where k: "kill_var (scope st2) v = Inr sc" and st': "st' = st2\<lparr>scope := sc\<rparr>"
    by (auto simp: mark_var_dead_Inr)
  from kill_var_sel(4)[OF k] nv show ?thesis
    by (simp add: st' s2 a1 remove1_append)
qed

lemma sem_inv:
  "sem_stmt st s = Inr (r, st') \<Longrightarrow> analyzer_inv st \<Longrightarrow> analyzer_inv st'"
  "sem_stmts st ss = Inr (rs, st') \<Longrightarrow> analyzer_inv st \<Longrightarrow> analyzer_inv st'"
proof (induction st s and st ss arbitrary: r st' and rs st' rule: sem_induct)
  case (BlockDef st name body)
  from sem_BlockDef_scope[OF BlockDef.prems(1)]
  have "active_vars (scope st') = active_vars (scope st)" by (auto simp: put_sym_def)
  with BlockDef.prems(2) sem_frame(1)[OF BlockDef.prems(1)] show ?case
    by (rule analyzer_inv_frame)
next
  case (StmtList st ss)
  then show ?case by (auto split: sum.splits)
next
  case (Call st name)
  then show ?case by (auto split: expression.splits sum.splits)
next
  case (Command st c)
  from Command.prems(1)
  have "active_vars (scope st') = active_vars (scope st)"
    by (auto simp: add_player_selector_def)
  with Command.prems(2) sem_frame(1)[OF Command.prems(1)] show ?case
    by (rule analyzer_inv_frame)
next
  case (If st e t f)
  have "scope st' = scope st" using If.prems(1) by (rule sem_branching_scope) blast
  with sem_frame(1)[OF If.prems(1)] If.prems(2) show ?case
    by (auto intro: analyzer_inv_frame)
next
  case (Loop st body)
  have "scope st' = scope st" using Loop.prems(1) by (rule sem_branching_scope) blast
  with sem_frame(1)[OF Loop.prems(1)] Loop.prems(2) show ?case
    by (auto intro: analyzer_inv_frame)
next
  case (While st e body)
  have "scope st' = scope st" using While.prems(1) by (rule sem_branching_scope) blast
  with sem_frame(1)[OF While.prems(1)] While.prems(2) show ?case
    by (auto intro: analyzer_inv_frame)
next
  case (Until st e body)
  have "scope st' = scope st" using Until.prems(1) by (rule sem_branching_scope) blast
  with sem_frame(1)[OF Until.prems(1)] Until.prems(2) show ?case
    by (auto intro: analyzer_inv_frame)
next
  case (Times st num body)
  from Times.prems(2) sem_frame(1)[OF Times.prems(1)] sem_Times_scope[OF Times.prems(1)]
  show ?case by (rule analyzer_inv_frame)
next
  case (Return st)
  from Return.prems(1) obtain c where
    "gen_cleanup_all_vars st = Inr (c, st')" by (rule sem_Return_Inr)
  with gen_cleanup_ok[OF Return.prems(2)] Return.prems(2) show ?case
    by (auto simp: analyzer_inv_def)
next
  case (Break st)
  then show ?case by (auto split: if_splits)
next
  case (Cons st x xs)
  from Cons.prems(1) obtain y st1 ys where
    a: "sem_stmt st x = Inr (y, st1)" and b: "sem_stmts st1 xs = Inr (ys, st')"
    by (rule sem_stmts_Cons_Inr)
  from Cons.IH(2)[OF a b Cons.IH(1)[OF a Cons.prems(2)]] show ?case .
qed simp_all

lemma scope_to_parent_err: "scope_to_parent st = Inl e \<Longrightarrow> \<not> lifetime_error e"
  by (auto simp: scope_to_parent_def split: option.splits)

lemma close_loop_err: "close_loop st = Inl e \<Longrightarrow> \<not> lifetime_error e"
  by (auto simp: close_loop_def split: sum.splits dest: scope_to_parent_err)

lemma close_block_err: "close_block st = Inl e \<Longrightarrow> \<not> lifetime_error e"
  by (auto simp: close_block_def split: sum.splits if_splits dest: scope_to_parent_err)

lemma mark_var_dead_ok:
  assumes "x \<in> set (active_vars (scope st))" "is_block_local_var (scope st) x = Inr True"
  shows "\<exists>st'. mark_var_dead st x = Inr st'"
  using assms by (simp add: mark_var_dead_def kill_var_def)

lemma lookup_block_by_name_err:
  "lookup_block_by_name sc lit = Inl e \<Longrightarrow> e = SemError (UnableToFindSymbol lit)"
  by (induction sc lit rule: lookup_block_by_name.induct) (auto split: option.splits)

lemma sem_no_lifetime_error:
  "sem_stmt st s = Inl err \<Longrightarrow> analyzer_inv st \<Longrightarrow> \<not> lifetime_error err"
  "sem_stmts st ss = Inl err \<Longrightarrow> analyzer_inv st \<Longrightarrow> \<not> lifetime_error err"
proof (induction st s and st ss arbitrary: err and err rule: sem_induct)
  case (BlockDef st name body)
  show ?case
  proof (cases name)
    case (IdentExpression nm)
    obtain s st1 where g: "gen_block_sym st nm = (s, st1)" by (cases "gen_block_sym st nm")
    have i1: "analyzer_inv (open_block st1)"
      using gen_block_sym_inv[OF BlockDef.prems(2) g] by (rule analyzer_inv_block)
    show ?thesis
    proof (cases "stmts_of body")
      case None
      with BlockDef.prems(1) IdentExpression g show ?thesis by auto
    next
      case (Some ss)
      note ih = BlockDef.IH[OF IdentExpression g Some _ i1]
      from BlockDef.prems(1) IdentExpression g Some show ?thesis
        by (auto simp: Let_def split: sum.splits dest: ih close_block_err
            simp del: sem_stmt.simps(2))
    qed
  qed (use BlockDef.prems(1) in auto)
next
  case (StmtList st ss)
  then show ?case by (auto split: sum.splits)
next
  case (Call st name)
  then show ?case
    by (cases name) (auto split: sum.splits dest: lookup_block_by_name_err)
next
  case (If st e t f)
  let ?b = "st\<lparr> scope := new_branch (scope st) \<rparr>"
  note i0 = analyzer_inv_branch(1)[OF If.prems(2)]
  show ?case
  proof (cases "sem_stmt ?b t")
    case (Inl x)
    with If.prems(1) If.IH(1)[OF Inl i0] show ?thesis by (simp add: Let_def)
  next
    case (Inr p)
    obtain t1 st1 where t: "sem_stmt ?b t = Inr (t1, st1)" using Inr by (cases p) simp
    have f1: "frame ?b st1" using t by (rule sem_frame)
    note p1 = branch_close[OF f1]
    let ?st2 = "st1\<lparr> scope := scope st \<rparr>"
    have i2: "analyzer_inv ?st2"
    proof (rule analyzer_inv_restore[OF If.prems(2)])
      show "scope ?st2 = scope st" by simp
      show "next_sym_id st \<le> next_sym_id ?st2" using f1 by (simp add: frame_def)
      show "0 \<le> block_nesting_level ?st2"
        using f1 If.prems(2) by (simp add: frame_def analyzer_inv_def)
      show "0 \<le> loop_nesting_level ?st2"
        using f1 If.prems(2) by (simp add: frame_def analyzer_inv_def)
    qed
    note i3 = analyzer_inv_branch(1)[OF i2]
    note ih2 = If.IH(2)[OF t p1 _ i3, simplified]
    from If.prems(1) t p1 show ?thesis
      by (auto simp: Let_def split: sum.splits dest: ih2 scope_to_parent_err)
  qed
next
  case (Loop st body)
  note i0 = analyzer_inv_branch(2)[OF Loop.prems(2)]
  from Loop.prems(1) show ?case
    by (auto split: sum.splits dest: Loop.IH[OF _ i0] close_loop_err)
next
  case (While st e body)
  note i0 = analyzer_inv_branch(2)[OF While.prems(2)]
  from While.prems(1) show ?case
    by (auto simp: Let_def split: sum.splits dest: While.IH[OF _ i0] close_loop_err)
next
  case (Until st e body)
  note i0 = analyzer_inv_branch(2)[OF Until.prems(2)]
  from Until.prems(1) show ?case
    by (auto simp: Let_def split: sum.splits dest: Until.IH[OF _ i0] close_loop_err)
next
  case (Times st num body)
  from def_var_ok[OF Times.prems(2)] obtain v st1 where
    d: "def_var st = Inr (v, st1)" and i1: "analyzer_inv st1" and
    a1: "active_vars (scope st1) = active_vars (scope st) @ [v]" by blast
  let ?w = "WhileStmt (GreaterExpression (ReadVarExpr (SymExpression v)) (NumberExpression 0))"
  let ?d = "WriteVarStmt v (SubExpression (ReadVarExpr (SymExpression v)) (NumberExpression 1))"
  show ?case
  proof (cases "stmts_of body")
    case None
    with Times.prems(1) d show ?thesis by (simp add: Let_def)
  next
    case (Some ss)
    note ih = Times.IH[OF d Some _ i1]
    show ?thesis
    proof (cases "sem_stmt st1 (?w (StmtList (ss @ [?d])))")
      case (Inl x)
      with Times.prems(1) d Some ih[OF Inl] show ?thesis
        by (simp add: Let_def del: sem_stmt.simps(7))
    next
      case (Inr p)
      obtain w st2 where w: "sem_stmt st1 (?w (StmtList (ss @ [?d]))) = Inr (w, st2)"
        using Inr by (cases p) simp
      from w have s2: "scope st2 = scope st1" by (rule sem_branching_scope) blast
      have "v \<in> set (active_vars (scope st2))" by (simp add: s2 a1)
      moreover have "is_block_local_var (scope st2) v = Inr True"
        using i1 by (simp add: analyzer_inv_def s2 a1)
      ultimately obtain st3 where "mark_var_dead st2 v = Inr st3"
        using mark_var_dead_ok by blast
      with Times.prems(1) d Some w show ?thesis
        by (simp add: Let_def del: sem_stmt.simps(7))
    qed
  qed
next
  case (Return st)
  with gen_cleanup_ok[OF Return.prems(2)] show ?case by (auto split: if_splits)
next
  case (Break st)
  then show ?case by (auto split: if_splits)
next
  case (Cons st x xs)
  show ?case
  proof (cases "sem_stmt st x")
    case (Inl e)
    with Cons.prems(1) Cons.IH(1)[OF Inl Cons.prems(2)] show ?thesis by simp
  next
    case (Inr p)
    obtain y st1 where a: "sem_stmt st x = Inr (y, st1)" using Inr by (cases p) simp
    note i1 = sem_inv(1)[OF a Cons.prems(2)]
    from Cons.prems(1) a show ?thesis
      by (auto split: sum.splits dest: Cons.IH(2)[OF a _ i1])
  qed
qed auto

lemma sem_stmts_append:
  "sem_stmts st (xs @ ys) =
     (case sem_stmts st xs of
        Inl e \<Rightarrow> Inl e
      | Inr (rx, st1) \<Rightarrow>
          (case sem_stmts st1 ys of
             Inl e \<Rightarrow> Inl e
           | Inr (ry, st2) \<Rightarrow> Inr (rx @ ry, st2)))"
  by (induction xs arbitrary: st) (auto split: sum.splits)



section \<open>Variable lifetime in a scope\<close>

lemma block_path_unfold:
  "block_path sc =
     sc # (if is_block sc then [] else (case parent sc of None \<Rightarrow> [] | Some q \<Rightarrow> block_path q))"
  by (cases sc) simp

lemma block_path_nonempty: "block_path sc \<noteq> []"
  by (cases sc) simp

lemma is_block_local_var_declared:
  "is_block_local_var sc x = Inr True \<longleftrightarrow> declared_before_block sc x"
  unfolding declared_before_block_def
  by (induction sc x rule: is_block_local_var.induct) (auto split: option.splits)

lemma is_block_local_var_rooted:
  "rooted sc \<Longrightarrow> is_block_local_var sc x = Inr (declared_before_block sc x)"
  unfolding declared_before_block_def rooted_def
  by (induction sc x rule: is_block_local_var.induct)
     (auto split: option.splits if_splits simp: block_path_nonempty)

lemma rooted_branch: "rooted (new_branch p) = rooted p"
  by (simp add: rooted_def new_branch_def block_path_nonempty)

lemma declared_branch: "declared_before_block (new_branch p) x = declared_before_block p x"
  by (simp add: declared_before_block_def new_branch_def)

text \<open>
  C6. Activating a variable that is already active raises the analysis error, and otherwise
  appends it to the active list. Killing a variable fails exactly when it is not active or
  not declared on the path up to the nearest block boundary; the error is the one for a
  variable that is not local when it is not declared there (the chain ending in a block), and
  the one for an inactive variable when it is declared but not active. A variable declared
  and activated in one branch of a scope can be killed there, and killing it from a sibling
  branch of the same scope fails, the parent not declaring it.
\<close>

theorem activate_kill_fail_loudly:
  "(x \<in> set (active_vars sc) \<longrightarrow> activate_var sc x = Inl (SemError (AlreadyActiveVariable x))) \<and>
   (x \<notin> set (active_vars sc) \<longrightarrow>
      (\<exists>sc'. activate_var sc x = Inr sc' \<and> active_vars sc' = active_vars sc @ [x])) \<and>
   (isl (kill_var sc x) \<longleftrightarrow> x \<notin> set (active_vars sc) \<or> \<not> declared_before_block sc x) \<and>
   (rooted sc \<and> \<not> declared_before_block sc x \<longrightarrow>
      kill_var sc x = Inl (SemError NotLocalToBlock)) \<and>
   (declared_before_block sc x \<and> x \<notin> set (active_vars sc) \<longrightarrow>
      kill_var sc x = Inl (SemError (InactiveVariable x))) \<and>
   (rooted sc \<and> \<not> declared_before_block sc x \<and> x \<notin> set (active_vars sc) \<longrightarrow>
      (\<exists>a a'. activate_var (put_sym (new_branch sc) x) x = Inr a \<and> kill_var a x = Inr a') \<and>
      kill_var (new_branch sc) x = Inl (SemError NotLocalToBlock))"
proof (intro conjI impI)
  show "activate_var sc x = Inl (SemError (AlreadyActiveVariable x))"
    if "x \<in> set (active_vars sc)"
    using that by (simp add: activate_var_def)
  show "\<exists>sc'. activate_var sc x = Inr sc' \<and> active_vars sc' = active_vars sc @ [x]"
    if "x \<notin> set (active_vars sc)"
    using that by (simp add: activate_var_def)
  show "isl (kill_var sc x) \<longleftrightarrow> x \<notin> set (active_vars sc) \<or> \<not> declared_before_block sc x"
  proof (cases "is_block_local_var sc x")
    case (Inl e)
    then have "\<not> declared_before_block sc x"
      using is_block_local_var_declared[of sc x] by simp
    with Inl show ?thesis by (simp add: kill_var_def)
  next
    case (Inr loc)
    then have "loc = declared_before_block sc x"
      using is_block_local_var_declared[of sc x] by auto
    with Inr show ?thesis by (auto simp: kill_var_def)
  qed
  show "kill_var sc x = Inl (SemError NotLocalToBlock)"
    if "rooted sc \<and> \<not> declared_before_block sc x"
    using that by (simp add: kill_var_def is_block_local_var_rooted)
  show "kill_var sc x = Inl (SemError (InactiveVariable x))"
    if "declared_before_block sc x \<and> x \<notin> set (active_vars sc)"
    using that is_block_local_var_declared[of sc x] by (simp add: kill_var_def)
  show "\<exists>a a'. activate_var (put_sym (new_branch sc) x) x = Inr a \<and> kill_var a x = Inr a'"
    if "rooted sc \<and> \<not> declared_before_block sc x \<and> x \<notin> set (active_vars sc)"
    using that
    by (simp add: activate_var_def put_sym_def new_branch_def kill_var_def)
  show "kill_var (new_branch sc) x = Inl (SemError NotLocalToBlock)"
    if "rooted sc \<and> \<not> declared_before_block sc x \<and> x \<notin> set (active_vars sc)"
    using that
    by (simp add: kill_var_def is_block_local_var_rooted rooted_branch declared_branch)
qed

theorem activate_kill_fail_loudly_witness:
  "activate_var (Scope None [Symbol ''v'' 0 variable] {} [Symbol ''v'' 0 variable] {} True)
     (Symbol ''v'' 0 variable) = Inl (SemError (AlreadyActiveVariable (Symbol ''v'' 0 variable))) \<and>
   kill_var (Scope None [Symbol ''v'' 0 variable] {} [] {} True) (Symbol ''v'' 0 variable)
     = Inl (SemError (InactiveVariable (Symbol ''v'' 0 variable))) \<and>
   kill_var (new_branch (Scope None [] {} [] {} True)) (Symbol ''v'' 0 variable)
     = Inl (SemError NotLocalToBlock) \<and>
   isl (kill_var (new_block (Scope None [Symbol ''v'' 0 variable] {} [Symbol ''v'' 0 variable] {} True))
     (Symbol ''v'' 0 variable))"
  using activate_kill_fail_loudly
          [of "Symbol ''v'' 0 variable"
              "Scope None [Symbol ''v'' 0 variable] {} [Symbol ''v'' 0 variable] {} True"]
        activate_kill_fail_loudly
          [of "Symbol ''v'' 0 variable" "Scope None [Symbol ''v'' 0 variable] {} [] {} True"]
        activate_kill_fail_loudly
          [of "Symbol ''v'' 0 variable" "Scope None [] {} [] {} True"]
        activate_kill_fail_loudly
          [of "Symbol ''v'' 0 variable"
              "new_block (Scope None [Symbol ''v'' 0 variable] {} [Symbol ''v'' 0 variable] {} True)"]
  by (simp add: declared_before_block_def rooted_def new_block_def)

section \<open>Routine lookup\<close>

lemma find_filter_hd:
  "find P xs = (case filter P xs of [] \<Rightarrow> None | x # _ \<Rightarrow> Some x)"
  by (induction xs) auto

lemma visible_blocks_unfold:
  "visible_blocks sc lit =
     filter (\<lambda>x. kind x = block \<and> literal x = lit) (rev (syms sc)) @
       (case parent sc of None \<Rightarrow> [] | Some q \<Rightarrow> visible_blocks q lit)"
  by (cases sc) (auto simp: visible_blocks_def split: option.splits)

lemma lookup_block_by_name_visible:
  "lookup_block_by_name sc lit =
     (case visible_blocks sc lit of
        [] \<Rightarrow> Inl (SemError (UnableToFindSymbol lit))
      | s # _ \<Rightarrow> Inr s)"
proof (induction sc lit rule: lookup_block_by_name.induct)
  case (1 p ss u a c b lit)
  let ?f = "filter (\<lambda>x. kind x = block \<and> literal x = lit) (rev ss)"
  have v: "visible_blocks (Scope p ss u a c b) lit =
             ?f @ (case p of None \<Rightarrow> [] | Some q \<Rightarrow> visible_blocks q lit)"
    by (subst visible_blocks_unfold) simp
  show ?case
  proof (cases ?f)
    case Nil
    then have "find (\<lambda>s. kind s = block \<and> literal s = lit) (rev ss) = None"
      by (simp add: find_filter_hd)
    with Nil "1.IH" show ?thesis
      unfolding v by (cases p) simp_all
  next
    case (Cons x xs)
    then have "find (\<lambda>s. kind s = block \<and> literal s = lit) (rev ss) = Some x"
      by (simp add: find_filter_hd)
    with Cons show ?thesis unfolding v by simp
  qed
qed

text \<open>
  C5. A call by name resolves to the first routine symbol of that name in the listing of
  the chain from the innermost scope outward (so a routine of the current scope is found
  before one of the same name further out, and a scope without one hands the search to its
  parent); the symbol found is declared in the chain at the time of the lookup. When the
  chain declares none the analysis error is raised, whatever the statements after the call
  define.
\<close>

theorem call_resolves_innermost:
  "lookup_block_by_name sc lit =
     (case visible_blocks sc lit of
        [] \<Rightarrow> Inl (SemError (UnableToFindSymbol lit))
      | s # _ \<Rightarrow> Inr s) \<and>
   sem_stmt st (CallStmt (IdentExpression lit)) =
     (case visible_blocks (scope st) lit of
        [] \<Rightarrow> Inl (SemError (UnableToFindSymbol lit))
      | s # _ \<Rightarrow> Inr (CallStmt (SymExpression s), st)) \<and>
   (list_ex (\<lambda>x. kind x = block \<and> literal x = lit) (syms sc) \<longrightarrow>
      (\<exists>s. lookup_block_by_name sc lit = Inr s \<and> s \<in> set (syms sc))) \<and>
   (\<not> list_ex (\<lambda>x. kind x = block \<and> literal x = lit) (syms sc) \<longrightarrow>
      lookup_block_by_name sc lit =
        (case parent sc of
           None \<Rightarrow> Inl (SemError (UnableToFindSymbol lit))
         | Some q \<Rightarrow> lookup_block_by_name q lit)) \<and>
   (lookup_block_by_name sc lit = Inr s \<longrightarrow>
      kind s = block \<and> literal s = lit \<and> list_ex (\<lambda>c. s \<in> set (syms c)) (scope_chain sc)) \<and>
   (isl (lookup_block_by_name sc lit) \<longleftrightarrow>
      \<not> list_ex (\<lambda>c. list_ex (\<lambda>x. kind x = block \<and> literal x = lit) (syms c)) (scope_chain sc)) \<and>
   (visible_blocks (scope st) lit = [] \<longrightarrow>
      sem_stmts st (CallStmt (IdentExpression lit) # rest) = Inl (SemError (UnableToFindSymbol lit)))"
proof (intro conjI impI)
  show look: "lookup_block_by_name sc lit =
     (case visible_blocks sc lit of
        [] \<Rightarrow> Inl (SemError (UnableToFindSymbol lit))
      | s # _ \<Rightarrow> Inr s)"
    by (rule lookup_block_by_name_visible)
  show call: "sem_stmt st (CallStmt (IdentExpression lit)) =
     (case visible_blocks (scope st) lit of
        [] \<Rightarrow> Inl (SemError (UnableToFindSymbol lit))
      | s # _ \<Rightarrow> Inr (CallStmt (SymExpression s), st))"
    by (simp add: lookup_block_by_name_visible split: list.splits)
  show "\<exists>s. lookup_block_by_name sc lit = Inr s \<and> s \<in> set (syms sc)"
    if "list_ex (\<lambda>x. kind x = block \<and> literal x = lit) (syms sc)"
  proof -
    from that have "filter (\<lambda>x. kind x = block \<and> literal x = lit) (rev (syms sc)) \<noteq> []"
      by (auto simp: list_ex_iff filter_empty_conv)
    then obtain s r where f: "filter (\<lambda>x. kind x = block \<and> literal x = lit) (rev (syms sc)) = s # r"
      by (cases "filter (\<lambda>x. kind x = block \<and> literal x = lit) (rev (syms sc))") auto
    then have "s \<in> set (filter (\<lambda>x. kind x = block \<and> literal x = lit) (rev (syms sc)))" by simp
    then have "s \<in> set (syms sc)" by simp
    moreover have "lookup_block_by_name sc lit = Inr s"
      by (subst look, subst visible_blocks_unfold) (simp add: f)
    ultimately show ?thesis by blast
  qed
  show "lookup_block_by_name sc lit =
        (case parent sc of
           None \<Rightarrow> Inl (SemError (UnableToFindSymbol lit))
         | Some q \<Rightarrow> lookup_block_by_name q lit)"
    if "\<not> list_ex (\<lambda>x. kind x = block \<and> literal x = lit) (syms sc)"
  proof -
    from that have "filter (\<lambda>x. kind x = block \<and> literal x = lit) (rev (syms sc)) = []"
      by (auto simp: list_ex_iff filter_empty_conv)
    then show ?thesis
      by (subst look, subst visible_blocks_unfold)
         (simp add: lookup_block_by_name_visible split: option.splits)
  qed
  assume r: "lookup_block_by_name sc lit = Inr s"
  then have "s \<in> set (visible_blocks sc lit)"
    by (auto simp: look split: list.splits)
  then show "kind s = block" "literal s = lit" "list_ex (\<lambda>c. s \<in> set (syms c)) (scope_chain sc)"
    by (auto simp: visible_blocks_def list_ex_iff)
next
  have "visible_blocks sc lit = [] \<longleftrightarrow>
        \<not> list_ex (\<lambda>c. list_ex (\<lambda>x. kind x = block \<and> literal x = lit) (syms c)) (scope_chain sc)"
    by (auto simp: visible_blocks_def list_ex_iff filter_empty_conv)
  then show "isl (lookup_block_by_name sc lit) \<longleftrightarrow>
      \<not> list_ex (\<lambda>c. list_ex (\<lambda>x. kind x = block \<and> literal x = lit) (syms c)) (scope_chain sc)"
    by (cases "visible_blocks sc lit") (simp_all add: lookup_block_by_name_visible)
next
  assume "visible_blocks (scope st) lit = []"
  then show "sem_stmts st (CallStmt (IdentExpression lit) # rest)
               = Inl (SemError (UnableToFindSymbol lit))"
    by (simp add: lookup_block_by_name_visible)
qed

lemmas analyzer_ops = Analyzer_def def_var_def gen_var_sym_def gen_block_sym_def gen_sym_id_def
  put_sym_def activate_var_def open_loop_def close_loop_def open_block_def close_block_def
  new_branch_def new_block_def scope_to_parent_def mark_var_dead_def kill_var_def
  add_player_selector_def sem_expr_def gen_cleanup_all_vars_def analyze_program_def Let_def

theorem call_resolves_innermost_witness:
  "lookup_block_by_name
     (Scope (Some (Scope None [Symbol ''f'' 0 block] {} [] {} True))
        [Symbol ''f'' 1 block] {} [] {} True) ''f'' = Inr (Symbol ''f'' 1 block) \<and>
   lookup_block_by_name
     (Scope (Some (Scope None [Symbol ''f'' 0 block] {} [] {} True)) [] {} [] {} False) ''f''
     = Inr (Symbol ''f'' 0 block) \<and>
   sem_stmts (Analyzer [])
     [CallStmt (IdentExpression ''g''), BlockDefStmt (IdentExpression ''g'') (StmtList [])]
     = Inl (SemError (UnableToFindSymbol ''g'')) \<and>
   sem_stmts (Analyzer [])
     [BlockDefStmt (IdentExpression ''f'')
        (StmtList [BlockDefStmt (IdentExpression ''f'') (StmtList []),
                   CallStmt (IdentExpression ''f'')]),
      CallStmt (IdentExpression ''f'')]
     = Inr ([CallStmt (SymExpression (Symbol ''f'' 0 block))],
            \<lparr> scope = Scope None [Symbol ''f'' 0 block] {} [] {} True, next_sym_id = 2,
              block_defs =
                [BlockDefStmt (SymExpression (Symbol ''f'' 1 block))
                   (StmtList [StmtList [StmtList [], ReturnStmt]]),
                 BlockDefStmt (SymExpression (Symbol ''f'' 0 block))
                   (StmtList [CallStmt (SymExpression (Symbol ''f'' 1 block)),
                              StmtList [StmtList [], ReturnStmt]])],
              stmts = [], block_nesting_level = 0, loop_nesting_level = 0,
              loop_nesting_stack = [],
              defnodes =
                [(Symbol ''f'' 1 block,
                  BlockDefStmt (SymExpression (Symbol ''f'' 1 block))
                    (StmtList [StmtList [StmtList [], ReturnStmt]])),
                 (Symbol ''f'' 0 block,
                  BlockDefStmt (SymExpression (Symbol ''f'' 0 block))
                    (StmtList [CallStmt (SymExpression (Symbol ''f'' 1 block)),
                               StmtList [StmtList [], ReturnStmt]]))] \<rparr>)"
  using call_resolves_innermost
          [of "Scope (Some (Scope None [Symbol ''f'' 0 block] {} [] {} True))
                 [Symbol ''f'' 1 block] {} [] {} True" "''f''" "Analyzer []" "Symbol ''f'' 1 block" "[]"]
        call_resolves_innermost
          [of "Scope (Some (Scope None [Symbol ''f'' 0 block] {} [] {} True)) [] {} [] {} False"
              "''f''" "Analyzer []" "Symbol ''f'' 0 block" "[]"]
        call_resolves_innermost
          [of "Scope None [] {} [] {} True" "''g''" "Analyzer []" "Symbol ''g'' 0 block"
              "[BlockDefStmt (IdentExpression ''g'') (StmtList [])]"]
  by (simp add: analyzer_ops visible_blocks_def)

section \<open>Symbol ids\<close>

lemma reaches_next_sym_id: "reaches a b \<Longrightarrow> next_sym_id a \<le> next_sym_id b"
proof (induction rule: reaches.induct)
  case (by_def_var a b s c)
  with def_var_frame[of b s c] show ?case by (simp add: frame_def)
next
  case (by_mark_var_dead a b s c)
  with mark_var_dead_frame[of b s c] show ?case by (simp add: frame_def)
next
  case (by_cleanup a b r c)
  with gen_cleanup_frame[of b r c] show ?case by (simp add: frame_def)
next
  case (by_sem_stmt a b s r c)
  with sem_frame(1)[of b s r c] show ?case by (simp add: frame_def)
next
  case (by_sem_stmts a b ss rs c)
  with sem_frame(2)[of b ss rs c] show ?case by (simp add: frame_def)
next
  case (by_analyze_program a b c)
  then obtain rs c' where "sem_stmts b (stmts b) = Inr (rs, c')" "next_sym_id c = next_sym_id c'"
    by (auto simp: analyze_program_def split: sum.splits)
  with by_analyze_program sem_frame(2)[of b "stmts b" rs c'] show ?case by (simp add: frame_def)
qed (auto simp: gen_sym_id_def gen_block_sym_def gen_var_sym_def gen_label_sym_def Let_def
      open_block_def open_loop_def close_block_def close_loop_def scope_to_parent_def
      split: sum.splits option.splits if_splits)

lemma reaches_trans:
  assumes "reaches a b" and "reaches b c"
  shows "reaches a c"
  using assms(2) assms(1)
  by (induction rule: reaches.induct) (auto intro: reaches.intros)

lemma generates_next_sym_id:
  assumes "generates a s a'"
  shows "sym_id s = next_sym_id a" "next_sym_id a' = next_sym_id a + 1"
  using assms
  by (auto simp: generates_def gen_block_sym_def gen_var_sym_def gen_label_sym_def
      gen_sym_id_def Let_def dest!: def_var_Inr)

lemma generates_from_drawn_id:
  assumes "generates a s a'"
  shows "reaches (a\<lparr> next_sym_id := next_sym_id a + 1 \<rparr>) a'"
proof -
  let ?a0 = "a\<lparr> next_sym_id := next_sym_id a + 1 \<rparr>"
  have put: "reaches ?a0 (?a0\<lparr> scope := put_sym (scope ?a0) x \<rparr>)" for x
    using reaches.start by (rule reaches.by_put_sym)
  from assms consider
    (block) nm where "gen_block_sym a nm = (s, a')" | (var) nm where "gen_var_sym a nm = (s, a')"
    | (label) nm where "gen_label_sym a nm = (s, a')" | (def) "def_var a = Inr (s, a')"
    by (auto simp: generates_def)
  then show ?thesis
  proof cases
    case block
    then have "a' = ?a0\<lparr> scope := put_sym (scope ?a0) s \<rparr>"
      by (auto simp: gen_block_sym_def gen_sym_id_def Let_def)
    with put[of s] show ?thesis by simp
  next
    case var
    then have "a' = ?a0\<lparr> scope := put_sym (scope ?a0) s \<rparr>"
      by (auto simp: gen_var_sym_def gen_sym_id_def Let_def)
    with put[of s] show ?thesis by simp
  next
    case label
    then have "a' = ?a0\<lparr> scope := put_sym (scope ?a0) s \<rparr>"
      by (auto simp: gen_label_sym_def gen_sym_id_def Let_def)
    with put[of s] show ?thesis by simp
  next
    case def
    let ?a1 = "?a0\<lparr> scope := put_sym (scope ?a0) s \<rparr>"
    from def obtain sc where
      act: "activate_var (scope ?a1) s = Inr sc" and a': "a' = ?a1\<lparr> scope := sc \<rparr>"
      by (auto simp: def_var_def gen_var_sym_def gen_sym_id_def Let_def split: sum.splits)
    from put[of s] act have "reaches ?a0 (?a1\<lparr> scope := sc \<rparr>)"
      by (rule reaches.by_activate_var)
    then show ?thesis by (simp add: a')
  qed
qed

lemma times_continuation:
  assumes "def_var st = Inr (v, st1)" and "sem_stmt st (TimesStmt n body) = Inr (r, st')"
  shows "reaches st1 st'"
proof -
  from assms(2) obtain v' st1' ss w st2 where
    d: "def_var st = Inr (v', st1')" and
    w: "sem_stmt st1'
       (WhileStmt (GreaterExpression (ReadVarExpr (SymExpression v')) (NumberExpression 0))
          (StmtList (ss @ [WriteVarStmt v'
             (SubExpression (ReadVarExpr (SymExpression v')) (NumberExpression 1))])))
      = Inr (w, st2)" and
    m: "mark_var_dead st2 v' = Inr st'"
    by (rule sem_Times_Inr)
  from d assms(1) have e: "v' = v" "st1' = st1" by simp_all
  have "reaches st1 st2" using reaches.start w[unfolded e] by (rule reaches.by_sem_stmt)
  then show ?thesis using m[unfolded e] by (rule reaches.by_mark_var_dead)
qed

lemma block_def_continuation:
  assumes "gen_block_sym st nm = (f, st1)"
    and "sem_stmt st (BlockDefStmt (IdentExpression nm) body) = Inr (r, st')"
  shows "reaches st1 st'"
proof -
  from assms(2) obtain nm' f' st1' ss body1 st2 st3 where
    n: "IdentExpression nm = IdentExpression nm'" and g: "gen_block_sym st nm' = (f', st1')" and
    b: "sem_stmt (open_block st1') (StmtList (ss @ [ReturnStmt])) = Inr (body1, st2)" and
    c: "close_block st2 = Inr st3" and
    st': "st' = st3\<lparr> defnodes := defnodes st3 @ [(f', BlockDefStmt (SymExpression f') body1)],
                 block_defs := block_defs st3 @ [BlockDefStmt (SymExpression f') body1] \<rparr>"
    by (rule sem_BlockDef_Inr)
  from n g assms(1) have e: "f' = f" "st1' = st1" by simp_all
  have "reaches st1 (open_block st1)" using reaches.start by (rule reaches.by_open_block)
  then have "reaches st1 st2" using b[unfolded e] by (rule reaches.by_sem_stmt)
  then have "reaches st1 st3" using c by (rule reaches.by_close_block)
  then show ?thesis unfolding st' by (rule reaches.by_collect)
qed

lemma new_defnodes_same:
  "defnodes st' = defnodes st \<Longrightarrow> new_defnodes st st' []"
  by (simp add: new_defnodes_def)

lemma new_defnodes_seq:
  assumes "new_defnodes a b n1" "new_defnodes b c n2"
    "next_sym_id a \<le> next_sym_id b" "next_sym_id b \<le> next_sym_id c"
  shows "new_defnodes a c (n1 @ n2)"
  using assms by (fastforce simp: new_defnodes_def list_all_iff)

lemma new_defnodes_shift:
  assumes "new_defnodes a b n" "defnodes a' = defnodes a" "next_sym_id a' \<le> next_sym_id a"
    "defnodes b' = defnodes b" "next_sym_id b \<le> next_sym_id b'"
  shows "new_defnodes a' b' n"
  using assms by (fastforce simp: new_defnodes_def list_all_iff)

lemma cleanup_loop_defnodes:
  "cleanup_loop n st res = Inr (res', st') \<Longrightarrow> defnodes st' = defnodes st"
proof (induction n st res rule: cleanup_loop.induct)
  case (1 st res)
  then show ?case by simp
next
  case (2 i st res)
  show ?case
  proof (cases "i < length (active_vars (scope st))")
    case True
    let ?v = "active_vars (scope st) ! i"
    from True "2.prems" obtain st1 where
      m: "mark_var_dead st ?v = Inr st1" and
      r: "cleanup_loop i st1 (res @ [KillVarStmt ?v]) = Inr (res', st')"
      by (auto simp: Let_def split: sum.splits)
    from "2.IH"[OF True refl m r] m show ?thesis by (auto simp: mark_var_dead_Inr)
  next
    case False
    with "2.prems" show ?thesis by simp
  qed
qed

lemma sem_defnodes:
  "sem_stmt st s = Inr (r, st') \<Longrightarrow> \<exists>new. new_defnodes st st' new"
  "sem_stmts st ss = Inr (rs, st') \<Longrightarrow> \<exists>new. new_defnodes st st' new"
proof (induction st s and st ss arbitrary: r st' and rs st' rule: sem_induct)
  case (BlockDef st name body)
  from BlockDef.prems obtain nm s st1 ss body1 st2 st3 where
    n: "name = IdentExpression nm" and g: "gen_block_sym st nm = (s, st1)" and
    b: "stmts_of body = Some ss" and
    r: "sem_stmt (open_block st1) (StmtList (ss @ [ReturnStmt])) = Inr (body1, st2)" and
    c: "close_block st2 = Inr st3" and
    st': "st' = st3\<lparr> defnodes := defnodes st3 @ [(s, BlockDefStmt (SymExpression s) body1)],
                 block_defs := block_defs st3 @ [BlockDefStmt (SymExpression s) body1] \<rparr>"
    by (rule sem_BlockDef_Inr)
  from BlockDef.IH[OF n g b r] obtain new where new: "new_defnodes (open_block st1) st2 new"
    by blast
  from g have s: "sym_id s = next_sym_id st" and n1: "next_sym_id st1 = next_sym_id st + 1"
    and d1: "defnodes st1 = defnodes st"
    by (auto simp: gen_block_sym_def gen_sym_id_def Let_def)
  from c have d3: "defnodes st3 = defnodes st2" and n3: "next_sym_id st3 = next_sym_id st2"
    by (auto simp: close_block_def scope_to_parent_def split: option.splits if_splits)
  from sem_frame(1)[OF r] have n2: "next_sym_id st1 \<le> next_sym_id st2"
    by (simp add: frame_def open_block_def)
  have "new_defnodes st st' (new @ [(s, BlockDefStmt (SymExpression s) body1)])"
    using new s n1 d1 d3 n3 n2
    by (fastforce simp: new_defnodes_def st' open_block_def list_all_iff)
  then show ?case by blast
next
  case (StmtList st ss)
  then show ?case by (auto split: sum.splits)
next
  case (Call st name)
  then show ?case by (auto split: expression.splits sum.splits intro!: exI new_defnodes_same)
next
  case (Command st c)
  then show ?case by (auto intro!: exI new_defnodes_same)
next
  case (If st e t f)
  from If.prems obtain t1 st1 st2 f1 st3 where
    t: "sem_stmt (st\<lparr> scope := new_branch (scope st) \<rparr>) t = Inr (t1, st1)" and
    p1: "scope_to_parent st1 = Inr st2" and
    f: "sem_stmt (st2\<lparr> scope := new_branch (scope st2) \<rparr>) f = Inr (f1, st3)" and
    p2: "scope_to_parent st3 = Inr st'"
    by (rule sem_If_Inr)
  from If.IH(1)[OF t] obtain n1 where
    n1: "new_defnodes (st\<lparr> scope := new_branch (scope st) \<rparr>) st1 n1" by blast
  from If.IH(2)[OF t p1 f] obtain n2 where
    n2: "new_defnodes (st2\<lparr> scope := new_branch (scope st2) \<rparr>) st3 n2" by blast
  from p1 have e2: "defnodes st2 = defnodes st1" "next_sym_id st2 = next_sym_id st1"
    by (auto simp: scope_to_parent_def split: option.splits)
  from p2 have e4: "defnodes st' = defnodes st3" "next_sym_id st' = next_sym_id st3"
    by (auto simp: scope_to_parent_def split: option.splits)
  have m1: "next_sym_id st \<le> next_sym_id st1" using sem_frame(1)[OF t] by (simp add: frame_def)
  have m2: "next_sym_id st1 \<le> next_sym_id st3"
    using sem_frame(1)[OF f] e2 by (simp add: frame_def)
  have a: "new_defnodes st st1 n1" using n1 by (rule new_defnodes_shift) simp_all
  have b: "new_defnodes st1 st' n2" using n2 by (rule new_defnodes_shift) (simp_all add: e2 e4)
  from a b m1 have "new_defnodes st st' (n1 @ n2)"
    by (rule new_defnodes_seq) (simp add: e4 m2)
  then show ?case by blast
next
  case (Loop st body)
  from Loop.prems obtain body1 st1 where
    b: "sem_stmt (open_loop st) body = Inr (body1, st1)" and c: "close_loop st1 = Inr st'"
    by (rule sem_Loop_Inr)
  from Loop.IH[OF b] obtain new where n: "new_defnodes (open_loop st) st1 new" by blast
  from c have "defnodes st' = defnodes st1" "next_sym_id st' = next_sym_id st1"
    by (auto simp: close_loop_def scope_to_parent_def split: option.splits)
  with n have "new_defnodes st st' new"
    by - (rule new_defnodes_shift, assumption, simp_all add: open_loop_def)
  then show ?case by blast
next
  case (While st e body)
  from While.prems obtain body1 st1 where
    b: "sem_stmt (open_loop st) body = Inr (body1, st1)" and c: "close_loop st1 = Inr st'"
    by (rule sem_While_Inr)
  from While.IH[OF b] obtain new where n: "new_defnodes (open_loop st) st1 new" by blast
  from c have "defnodes st' = defnodes st1" "next_sym_id st' = next_sym_id st1"
    by (auto simp: close_loop_def scope_to_parent_def split: option.splits)
  with n have "new_defnodes st st' new"
    by - (rule new_defnodes_shift, assumption, simp_all add: open_loop_def)
  then show ?case by blast
next
  case (Until st e body)
  from Until.prems obtain body1 st1 where
    b: "sem_stmt (open_loop st) body = Inr (body1, st1)" and c: "close_loop st1 = Inr st'"
    by (rule sem_Until_Inr)
  from Until.IH[OF b] obtain new where n: "new_defnodes (open_loop st) st1 new" by blast
  from c have "defnodes st' = defnodes st1" "next_sym_id st' = next_sym_id st1"
    by (auto simp: close_loop_def scope_to_parent_def split: option.splits)
  with n have "new_defnodes st st' new"
    by - (rule new_defnodes_shift, assumption, simp_all add: open_loop_def)
  then show ?case by blast
next
  case (Times st num body)
  from Times.prems obtain v st1 ss w st2 where
    d: "def_var st = Inr (v, st1)" and b: "stmts_of body = Some ss" and
    w: "sem_stmt st1
       (WhileStmt (GreaterExpression (ReadVarExpr (SymExpression v)) (NumberExpression 0))
          (StmtList (ss @ [WriteVarStmt v
             (SubExpression (ReadVarExpr (SymExpression v)) (NumberExpression 1))])))
      = Inr (w, st2)" and
    m: "mark_var_dead st2 v = Inr st'"
    by (rule sem_Times_Inr)
  from Times.IH[OF d b w] obtain new where n: "new_defnodes st1 st2 new" by blast
  from def_var_Inr[OF d] have "defnodes st1 = defnodes st" "next_sym_id st \<le> next_sym_id st1"
    by auto
  moreover from m have "defnodes st' = defnodes st2" "next_sym_id st2 \<le> next_sym_id st'"
    by (auto simp: mark_var_dead_Inr)
  ultimately have "new_defnodes st st' new"
    using n by - (rule new_defnodes_shift, assumption, simp_all)
  then show ?case by blast
next
  case (Return st)
  from Return.prems obtain c where c: "gen_cleanup_all_vars st = Inr (c, st')"
    by (rule sem_Return_Inr)
  then have "defnodes st' = defnodes st"
    by (auto simp: gen_cleanup_all_vars_def split: sum.splits dest!: cleanup_loop_defnodes)
  then show ?case by (auto intro!: exI new_defnodes_same)
next
  case (Break st)
  then show ?case by (auto split: if_splits intro!: exI new_defnodes_same)
next
  case (Nil st)
  then show ?case by (auto intro!: exI new_defnodes_same)
next
  case (Cons st x xs)
  from Cons.prems obtain y st1 ys where
    a: "sem_stmt st x = Inr (y, st1)" and b: "sem_stmts st1 xs = Inr (ys, st')"
    by (rule sem_stmts_Cons_Inr)
  from Cons.IH(1)[OF a] obtain n1 where n1: "new_defnodes st st1 n1" by blast
  from Cons.IH(2)[OF a b] obtain n2 where n2: "new_defnodes st1 st' n2" by blast
  from sem_frame(1)[OF a] sem_frame(2)[OF b]
  have "next_sym_id st \<le> next_sym_id st1" "next_sym_id st1 \<le> next_sym_id st'"
    by (simp_all add: frame_def)
  with n1 n2 have "new_defnodes st st' (n1 @ n2)" by (rule new_defnodes_seq)
  then show ?case by blast
qed (auto intro!: exI new_defnodes_same)

text \<open>
  C8. Every symbol is made with the counter as id, and making it raises the counter by one;
  no mutation of the analyzer lowers the counter. So of two symbols generated in one run
  the later has the strictly greater id, and they differ, whatever the run did between the
  two generations (scopes opened and left, statements analysed, constructs desugared); the
  same holds of two ids drawn by \<^verbatim>\<open>gen_sym_id\<close> itself. The run of a counted repetition
  after its variable is generated, and of a routine definition after its symbol is
  generated, are such continuations. The routine symbols a statement records have pairwise
  distinct ids between the counter before and after it, and those of a whole program are
  pairwise distinct.
\<close>

theorem sym_ids_strictly_increasing:
  "(generates a s a' \<and> reaches a' b \<and> generates b t b' \<longrightarrow> sym_id s < sym_id t \<and> s \<noteq> t) \<and>
   (gen_sym_id a = (i, a') \<and> reaches a' b \<and> gen_sym_id b = (j, b') \<longrightarrow> i < j) \<and>
   (gen_sym_id a = (i, a') \<and> reaches a' b \<and> generates b t b' \<longrightarrow> i < sym_id t) \<and>
   (generates a s a' \<longrightarrow>
      gen_sym_id a = (sym_id s, a\<lparr> next_sym_id := next_sym_id a + 1 \<rparr>) \<and>
      reaches (a\<lparr> next_sym_id := next_sym_id a + 1 \<rparr>) a' \<and>
      next_sym_id a' = sym_id s + 1) \<and>
   (def_var a = Inr (s, a') \<and> sem_stmt a (TimesStmt n body) = Inr (r, c) \<longrightarrow>
      generates a s a' \<and> reaches a' c) \<and>
   (gen_block_sym a nm = (s, a') \<and>
    sem_stmt a (BlockDefStmt (IdentExpression nm) body) = Inr (r, c) \<longrightarrow>
      generates a s a' \<and> reaches a' c) \<and>
   (sem_stmt a x = Inr (r, c) \<longrightarrow> (\<exists>new. new_defnodes a c new)) \<and>
   (analyze_program (Analyzer prog) = Inr c \<longrightarrow> distinct (map (sym_id \<circ> fst) (defnodes c)))"
proof (intro conjI impI)
  assume h: "generates a s a' \<and> reaches a' b \<and> generates b t b'"
  from h generates_next_sym_id[of a s a'] generates_next_sym_id[of b t b']
    reaches_next_sym_id[of a' b]
  have "sym_id s < sym_id t" by simp
  then show "sym_id s < sym_id t" "s \<noteq> t" by auto
next
  assume h: "gen_sym_id a = (i, a') \<and> reaches a' b \<and> gen_sym_id b = (j, b')"
  then have "i = next_sym_id a" "next_sym_id a' = i + 1" "j = next_sym_id b"
    by (auto simp: gen_sym_id_def)
  with h reaches_next_sym_id[of a' b] show "i < j" by simp
next
  assume h: "gen_sym_id a = (i, a') \<and> reaches a' b \<and> generates b t b'"
  then have "i = next_sym_id a" "next_sym_id a' = i + 1"
    by (auto simp: gen_sym_id_def)
  with h reaches_next_sym_id[of a' b] generates_next_sym_id(1)[of b t b']
  show "i < sym_id t" by simp
next
  assume g: "generates a s a'"
  from generates_next_sym_id[OF g]
  show "gen_sym_id a = (sym_id s, a\<lparr> next_sym_id := next_sym_id a + 1 \<rparr>)"
    "next_sym_id a' = sym_id s + 1"
    by (simp_all add: gen_sym_id_def)
  from g show "reaches (a\<lparr> next_sym_id := next_sym_id a + 1 \<rparr>) a'"
    by (rule generates_from_drawn_id)
next
  assume h: "def_var a = Inr (s, a') \<and> sem_stmt a (TimesStmt n body) = Inr (r, c)"
  then show "generates a s a'" by (simp add: generates_def)
  from h show "reaches a' c" by (blast intro: times_continuation)
next
  assume h: "gen_block_sym a nm = (s, a') \<and>
    sem_stmt a (BlockDefStmt (IdentExpression nm) body) = Inr (r, c)"
  then show "generates a s a'" by (auto simp: generates_def)
  from h show "reaches a' c" by (blast intro: block_def_continuation)
next
  assume "sem_stmt a x = Inr (r, c)"
  then show "\<exists>new. new_defnodes a c new" by (rule sem_defnodes)
next
  assume "analyze_program (Analyzer prog) = Inr c"
  then obtain rs c' where
    r: "sem_stmts (Analyzer prog) (stmts (Analyzer prog)) = Inr (rs, c')" and
    c: "defnodes c = defnodes c'"
    by (auto simp: analyze_program_def split: sum.splits)
  from sem_defnodes(2)[OF r] obtain new where "new_defnodes (Analyzer prog) c' new" by blast
  then show "distinct (map (sym_id \<circ> fst) (defnodes c))"
    by (simp add: new_defnodes_def c Analyzer_def)
qed

theorem sym_ids_strictly_increasing_witness:
  "def_var (Analyzer []) = Inr (Symbol '':anonymous:'' 0 variable,
     \<lparr> scope = Scope None [Symbol '':anonymous:'' 0 variable] {} [Symbol '':anonymous:'' 0 variable] {} True, next_sym_id = 1, block_defs = [], stmts = [],
       block_nesting_level = 0, loop_nesting_level = 0, loop_nesting_stack = [], defnodes = [] \<rparr>) \<and>
   sem_stmt (Analyzer []) (TimesStmt 2 (StmtList []))
     = Inr (StmtList
       [DefVarStmt (Symbol '':anonymous:'' 0 variable), WriteVarStmt (Symbol '':anonymous:'' 0 variable) (NumberExpression 2),
        WhileStmt (GreaterExpression (ReadVarExpr (SymExpression (Symbol '':anonymous:'' 0 variable))) (NumberExpression 0))
          (StmtList [WriteVarStmt (Symbol '':anonymous:'' 0 variable)
                       (SubExpression (ReadVarExpr (SymExpression (Symbol '':anonymous:'' 0 variable))) (NumberExpression 1))]),
        KillVarStmt (Symbol '':anonymous:'' 0 variable)],
     \<lparr> scope = Scope None [Symbol '':anonymous:'' 0 variable] {} [] {Symbol '':anonymous:'' 0 variable} True, next_sym_id = 1, block_defs = [], stmts = [],
       block_nesting_level = 0, loop_nesting_level = 0, loop_nesting_stack = [], defnodes = [] \<rparr>) \<and>
   reaches
     \<lparr> scope = Scope None [Symbol '':anonymous:'' 0 variable] {} [Symbol '':anonymous:'' 0 variable] {} True, next_sym_id = 1, block_defs = [], stmts = [],
       block_nesting_level = 0, loop_nesting_level = 0, loop_nesting_stack = [], defnodes = [] \<rparr>
     \<lparr> scope = Scope None [Symbol '':anonymous:'' 0 variable] {} [] {Symbol '':anonymous:'' 0 variable} True, next_sym_id = 1, block_defs = [], stmts = [],
       block_nesting_level = 0, loop_nesting_level = 0, loop_nesting_stack = [], defnodes = [] \<rparr> \<and>
   reaches ((Analyzer [])\<lparr> next_sym_id := 1 \<rparr>)
     \<lparr> scope = Scope None [Symbol '':anonymous:'' 0 variable] {} [] {Symbol '':anonymous:'' 0 variable} True, next_sym_id = 1, block_defs = [], stmts = [],
       block_nesting_level = 0, loop_nesting_level = 0, loop_nesting_stack = [], defnodes = [] \<rparr> \<and>
   def_var
     \<lparr> scope = Scope None [Symbol '':anonymous:'' 0 variable] {} [] {Symbol '':anonymous:'' 0 variable} True, next_sym_id = 1, block_defs = [], stmts = [],
       block_nesting_level = 0, loop_nesting_level = 0, loop_nesting_stack = [], defnodes = [] \<rparr>
     = Inr (Symbol '':anonymous:'' 1 variable,
     \<lparr> scope = Scope None [Symbol '':anonymous:'' 0 variable, Symbol '':anonymous:'' 1 variable] {} [Symbol '':anonymous:'' 1 variable] {Symbol '':anonymous:'' 0 variable} True, next_sym_id = 2, block_defs = [],
       stmts = [], block_nesting_level = 0, loop_nesting_level = 0, loop_nesting_stack = [],
       defnodes = [] \<rparr>) \<and>
   sym_id (Symbol '':anonymous:'' 0 variable) < sym_id (Symbol '':anonymous:'' 1 variable) \<and>
   Symbol '':anonymous:'' 0 variable \<noteq> Symbol '':anonymous:'' 1 variable"
proof -
  let ?A0 = "Analyzer []"
  let ?v0 = "Symbol '':anonymous:'' 0 variable" and ?v1 = "Symbol '':anonymous:'' 1 variable"
  let ?A1 = "\<lparr> scope = Scope None [Symbol '':anonymous:'' 0 variable] {} [Symbol '':anonymous:'' 0 variable] {} True, next_sym_id = 1, block_defs = [], stmts = [],
       block_nesting_level = 0, loop_nesting_level = 0, loop_nesting_stack = [], defnodes = [] \<rparr>"
  let ?B1 = "\<lparr> scope = Scope None [Symbol '':anonymous:'' 0 variable] {} [] {Symbol '':anonymous:'' 0 variable} True, next_sym_id = 1, block_defs = [], stmts = [],
       block_nesting_level = 0, loop_nesting_level = 0, loop_nesting_stack = [], defnodes = [] \<rparr>"
  let ?B2 = "\<lparr> scope = Scope None [Symbol '':anonymous:'' 0 variable, Symbol '':anonymous:'' 1 variable] {} [Symbol '':anonymous:'' 1 variable] {Symbol '':anonymous:'' 0 variable} True, next_sym_id = 2, block_defs = [],
       stmts = [], block_nesting_level = 0, loop_nesting_level = 0, loop_nesting_stack = [],
       defnodes = [] \<rparr>"
  let ?R = "StmtList
       [DefVarStmt (Symbol '':anonymous:'' 0 variable), WriteVarStmt (Symbol '':anonymous:'' 0 variable) (NumberExpression 2),
        WhileStmt (GreaterExpression (ReadVarExpr (SymExpression (Symbol '':anonymous:'' 0 variable))) (NumberExpression 0))
          (StmtList [WriteVarStmt (Symbol '':anonymous:'' 0 variable)
                       (SubExpression (ReadVarExpr (SymExpression (Symbol '':anonymous:'' 0 variable))) (NumberExpression 1))]),
        KillVarStmt (Symbol '':anonymous:'' 0 variable)]"
  have d0: "def_var ?A0 = Inr (?v0, ?A1)" by (simp add: analyzer_ops)
  have t0: "sem_stmt ?A0 (TimesStmt 2 (StmtList [])) = Inr (?R, ?B1)"
    by (simp add: analyzer_ops)
  have d1: "def_var ?B1 = Inr (?v1, ?B2)" by (simp add: analyzer_ops)
  note T = sym_ids_strictly_increasing
    [where a = ?A0 and s = ?v0 and a' = ?A1 and b = ?B1 and t = ?v1 and b' = ?B2
       and n = 2 and body = "StmtList []" and r = ?R and c = ?B1]
  from T d0 t0 have g0: "generates ?A0 ?v0 ?A1" and r1: "reaches ?A1 ?B1" by blast+
  from T g0 have "reaches (?A0\<lparr> next_sym_id := next_sym_id ?A0 + 1 \<rparr>) ?A1" by blast
  then have "reaches (?A0\<lparr> next_sym_id := 1 \<rparr>) ?A1" by (simp add: Analyzer_def)
  then have r0: "reaches (?A0\<lparr> next_sym_id := 1 \<rparr>) ?B1" using r1 by (rule reaches_trans)
  from d1 have g1: "generates ?B1 ?v1 ?B2" by (simp add: generates_def)
  from T g0 r1 g1 have "sym_id ?v0 < sym_id ?v1 \<and> ?v0 \<noteq> ?v1" by blast
  with d0 t0 r1 r0 d1 show ?thesis by blast
qed


section \<open>Early return and early break\<close>

text \<open>
  C3. Where a return is legal (routine depth above zero) and the analyzer's invariant
  holds, the return is rewritten to the list of the kills of the variables active in the
  current scope, the most recently activated first and all of them, followed by the return
  itself; afterwards no variable is active in the current scope, and the killed ones are
  recorded as cleaned.
\<close>

theorem early_return_kills_active_vars:
  assumes "0 < block_nesting_level st" and "analyzer_inv st"
  shows "\<exists>st'. sem_stmt st ReturnStmt =
             Inr (StmtList [StmtList (map KillVarStmt (rev (active_vars (scope st)))),
                            ReturnStmt], st') \<and>
           active_vars (scope st') = [] \<and>
           cleaned_vars (scope st') = cleaned_vars (scope st) \<union> set (active_vars (scope st)) \<and>
           syms (scope st') = syms (scope st) \<and> parent (scope st') = parent (scope st)"
  using assms(1) gen_cleanup_ok[OF assms(2)] by simp

theorem early_return_kills_active_vars_witness:
  "sem_stmt
     \<lparr> scope =
         Scope (Some
           (Scope (Some
             (Scope (Some
               (Scope (Some
                 (Scope (Some (Scope None [Symbol ''f'' 0 block] {} [] {} True))
                    [Symbol '':anonymous:'' 1 variable] {}
                    [Symbol '':anonymous:'' 1 variable] {} True))
                  [Symbol '':anonymous:'' 2 variable] {}
                  [Symbol '':anonymous:'' 1 variable, Symbol '':anonymous:'' 2 variable] {} False))
                [Symbol '':anonymous:'' 3 variable] {}
                [Symbol '':anonymous:'' 1 variable, Symbol '':anonymous:'' 2 variable,
                 Symbol '':anonymous:'' 3 variable] {} False))
              [] {}
              [Symbol '':anonymous:'' 1 variable, Symbol '':anonymous:'' 2 variable,
               Symbol '':anonymous:'' 3 variable] {} False))
           [] {}
           [Symbol '':anonymous:'' 1 variable, Symbol '':anonymous:'' 2 variable,
            Symbol '':anonymous:'' 3 variable] {} False,
       next_sym_id = 4, block_defs = [], stmts = [], block_nesting_level = 1,
       loop_nesting_level = 3, loop_nesting_stack = [0], defnodes = [] \<rparr>
     ReturnStmt
   = Inr (StmtList
            [StmtList [KillVarStmt (Symbol '':anonymous:'' 3 variable),
                       KillVarStmt (Symbol '':anonymous:'' 2 variable),
                       KillVarStmt (Symbol '':anonymous:'' 1 variable)],
             ReturnStmt],
          \<lparr> scope =
              Scope (Some
                (Scope (Some
                  (Scope (Some
                    (Scope (Some
                      (Scope (Some (Scope None [Symbol ''f'' 0 block] {} [] {} True))
                         [Symbol '':anonymous:'' 1 variable] {}
                         [Symbol '':anonymous:'' 1 variable] {} True))
                       [Symbol '':anonymous:'' 2 variable] {}
                       [Symbol '':anonymous:'' 1 variable, Symbol '':anonymous:'' 2 variable] {}
                       False))
                     [Symbol '':anonymous:'' 3 variable] {}
                     [Symbol '':anonymous:'' 1 variable, Symbol '':anonymous:'' 2 variable,
                      Symbol '':anonymous:'' 3 variable] {} False))
                   [] {}
                   [Symbol '':anonymous:'' 1 variable, Symbol '':anonymous:'' 2 variable,
                    Symbol '':anonymous:'' 3 variable] {} False))
                [] {} []
                {Symbol '':anonymous:'' 1 variable, Symbol '':anonymous:'' 2 variable,
                 Symbol '':anonymous:'' 3 variable} False,
            next_sym_id = 4, block_defs = [], stmts = [], block_nesting_level = 1,
            loop_nesting_level = 3, loop_nesting_stack = [0], defnodes = [] \<rparr>)"
  using early_return_kills_active_vars
    [of "\<lparr> scope =
         Scope (Some
           (Scope (Some
             (Scope (Some
               (Scope (Some
                 (Scope (Some (Scope None [Symbol ''f'' 0 block] {} [] {} True))
                    [Symbol '':anonymous:'' 1 variable] {}
                    [Symbol '':anonymous:'' 1 variable] {} True))
                  [Symbol '':anonymous:'' 2 variable] {}
                  [Symbol '':anonymous:'' 1 variable, Symbol '':anonymous:'' 2 variable] {} False))
                [Symbol '':anonymous:'' 3 variable] {}
                [Symbol '':anonymous:'' 1 variable, Symbol '':anonymous:'' 2 variable,
                 Symbol '':anonymous:'' 3 variable] {} False))
              [] {}
              [Symbol '':anonymous:'' 1 variable, Symbol '':anonymous:'' 2 variable,
               Symbol '':anonymous:'' 3 variable] {} False))
           [] {}
           [Symbol '':anonymous:'' 1 variable, Symbol '':anonymous:'' 2 variable,
            Symbol '':anonymous:'' 3 variable] {} False,
       next_sym_id = 4, block_defs = [], stmts = [], block_nesting_level = 1,
       loop_nesting_level = 3, loop_nesting_stack = [0], defnodes = [] \<rparr>"]
  by (simp add: analyzer_inv_def analyzer_ops)

lemma sem_stmts_break_needs_loop:
  "sem_stmts a ss = Inr (rs, b) \<Longrightarrow> BreakStmt \<in> set ss \<Longrightarrow> 0 < loop_nesting_level a"
proof (induction ss arbitrary: a rs)
  case Nil
  then show ?case by simp
next
  case (Cons x xs)
  from Cons.prems(1) obtain y a1 ys where
    x: "sem_stmt a x = Inr (y, a1)" and xs: "sem_stmts a1 xs = Inr (ys, b)"
    by (rule sem_stmts_Cons_Inr)
  show ?case
  proof (cases "x = BreakStmt")
    case True
    with x show ?thesis by (auto split: if_splits)
  next
    case False
    with Cons.prems(2) have "BreakStmt \<in> set xs" by simp
    from Cons.IH[OF xs this] sem_frame(1)[OF x] show ?thesis by (simp add: frame_def)
  qed
qed

lemma block_def_with_break_fails:
  assumes "BreakStmt \<in> set body"
  shows "isl (sem_stmt st (BlockDefStmt name (StmtList body)))"
proof (rule ccontr)
  assume "\<not> isl (sem_stmt st (BlockDefStmt name (StmtList body)))"
  then obtain r st' where "sem_stmt st (BlockDefStmt name (StmtList body)) = Inr (r, st')"
    by (cases "sem_stmt st (BlockDefStmt name (StmtList body))") auto
  then obtain nm s st1 ss body1 st2 where
    b: "stmts_of (StmtList body) = Some ss" and
    r: "sem_stmt (open_block st1) (StmtList (ss @ [ReturnStmt])) = Inr (body1, st2)"
    by (rule sem_BlockDef_Inr)
  from b have ss: "ss = body" by simp
  from r obtain res where "sem_stmts (open_block st1) (body @ [ReturnStmt]) = Inr (res, st2)"
    unfolding ss by (rule sem_StmtList_Inr)
  from sem_stmts_break_needs_loop[OF this] assms
  have "0 < loop_nesting_level (open_block st1)" by simp
  then show False by (simp add: open_block_def)
qed

lemma close_open_block: "close_block (open_block st) = Inr st"
  by (simp add: close_block_def open_block_def scope_to_parent_def new_block_def)

text \<open>
  C4. In a state of the analysis (one satisfying the invariant) an early return is an
  error exactly when the routine depth is zero, and an early break exactly when the
  repetition depth is zero; each error is the analysis error of its own message. Entering a
  routine body saves the repetition depth and sets it to zero, and leaving the body restores
  the state before it. So a routine definition whose body holds an early break directly
  fails in every state, at any repetition depth, also as a statement of a loop body.
\<close>

theorem return_and_break_legality:
  assumes "analyzer_inv st"
  shows "(isl (sem_stmt st ReturnStmt) \<longleftrightarrow> block_nesting_level st = 0) \<and>
         (block_nesting_level st = 0 \<longrightarrow>
            sem_stmt st ReturnStmt = Inl (SemError ReturnOutsideBlock)) \<and>
         (isl (sem_stmt st BreakStmt) \<longleftrightarrow> loop_nesting_level st = 0) \<and>
         (loop_nesting_level st = 0 \<longrightarrow>
            sem_stmt st BreakStmt = Inl (SemError BreakOutsideLoop)) \<and>
         (0 < loop_nesting_level st \<longrightarrow> sem_stmt st BreakStmt = Inr (BreakStmt, st)) \<and>
         loop_nesting_level (open_block st) = 0 \<and>
         loop_nesting_stack (open_block st) = loop_nesting_stack st @ [loop_nesting_level st] \<and>
         block_nesting_level (open_block st) = block_nesting_level st + 1 \<and>
         close_block (open_block st) = Inr st \<and>
         sem_stmt st (BlockDefStmt (IdentExpression nm) (StmtList (BreakStmt # rest)))
           = Inl (SemError BreakOutsideLoop) \<and>
         (BreakStmt \<in> set body \<longrightarrow>
            isl (sem_stmt st (BlockDefStmt name (StmtList body))) \<and>
            isl (sem_stmt st (LoopStmt (StmtList [BlockDefStmt name (StmtList body)]))) \<and>
            isl (sem_stmt st (WhileStmt e (StmtList [BlockDefStmt name (StmtList body)]))))"
proof -
  from assms have b0: "0 \<le> block_nesting_level st" and l0: "0 \<le> loop_nesting_level st"
    by (simp_all add: analyzer_inv_def)
  have ret: "isl (sem_stmt st ReturnStmt) \<longleftrightarrow> block_nesting_level st = 0"
    using b0 gen_cleanup_ok[OF assms] by auto
  have ret0: "block_nesting_level st = 0 \<longrightarrow>
            sem_stmt st ReturnStmt = Inl (SemError ReturnOutsideBlock)"
    by simp
  have brk: "isl (sem_stmt st BreakStmt) \<longleftrightarrow> loop_nesting_level st = 0"
    using l0 by auto
  have brk0: "loop_nesting_level st = 0 \<longrightarrow>
            sem_stmt st BreakStmt = Inl (SemError BreakOutsideLoop)"
    by simp
  have brk1: "0 < loop_nesting_level st \<longrightarrow> sem_stmt st BreakStmt = Inr (BreakStmt, st)"
    by simp
  have ob: "loop_nesting_level (open_block st) = 0"
    "loop_nesting_stack (open_block st) = loop_nesting_stack st @ [loop_nesting_level st]"
    "block_nesting_level (open_block st) = block_nesting_level st + 1"
    by (simp_all add: open_block_def)
  have direct: "sem_stmt st (BlockDefStmt (IdentExpression nm) (StmtList (BreakStmt # rest)))
           = Inl (SemError BreakOutsideLoop)"
    by (simp add: gen_block_sym_def gen_sym_id_def Let_def open_block_def)
  have nested: "isl (sem_stmt st (BlockDefStmt name (StmtList body))) \<and>
            isl (sem_stmt st (LoopStmt (StmtList [BlockDefStmt name (StmtList body)]))) \<and>
            isl (sem_stmt st (WhileStmt e (StmtList [BlockDefStmt name (StmtList body)])))"
    if m: "BreakStmt \<in> set body"
  proof -
    have f: "isl (sem_stmt a (BlockDefStmt name (StmtList body)))" for a
      using m by (rule block_def_with_break_fails)
    have g: "isl (sem_stmt a (StmtList [BlockDefStmt name (StmtList body)]))" for a
      using f[of a] by (cases "sem_stmt a (BlockDefStmt name (StmtList body))") simp_all
    have "isl (sem_stmt st (LoopStmt (StmtList [BlockDefStmt name (StmtList body)])))"
      using g[of "open_loop st"]
      by (cases "sem_stmt (open_loop st) (StmtList [BlockDefStmt name (StmtList body)])")
         (simp_all del: sem_stmt.simps(1,2))
    moreover have "isl (sem_stmt st (WhileStmt e (StmtList [BlockDefStmt name (StmtList body)])))"
      using g[of "open_loop st"]
      by (cases "sem_stmt (open_loop st) (StmtList [BlockDefStmt name (StmtList body)])")
         (simp_all add: Let_def del: sem_stmt.simps(1,2))
    ultimately show ?thesis using f[of st] by blast
  qed
  from ret ret0 brk brk0 brk1 ob close_open_block[of st] direct nested show ?thesis
    by blast
qed

theorem return_and_break_legality_witness:
  "sem_stmt (Analyzer []) ReturnStmt = Inl (SemError ReturnOutsideBlock) \<and>
   sem_stmt (Analyzer []) BreakStmt = Inl (SemError BreakOutsideLoop) \<and>
   sem_stmt (open_loop (Analyzer [])) BreakStmt = Inr (BreakStmt, open_loop (Analyzer [])) \<and>
   loop_nesting_level (open_loop (Analyzer [])) = 1 \<and>
   sem_stmt (open_loop (Analyzer []))
     (BlockDefStmt (IdentExpression ''f'') (StmtList [BreakStmt]))
     = Inl (SemError BreakOutsideLoop) \<and>
   isl (sem_stmt (Analyzer [])
          (LoopStmt (StmtList [BlockDefStmt (IdentExpression ''f'')
                                 (StmtList [CommandStmt (Command ''p'' []), BreakStmt])]))) \<and>
   isl (sem_stmt (open_block (Analyzer [])) ReturnStmt) = False"
proof -
  have i0: "analyzer_inv (Analyzer [])"
    by (simp add: analyzer_inv_def Analyzer_def)
  have i1: "analyzer_inv (open_loop (Analyzer []))"
    by (simp add: analyzer_inv_def Analyzer_def open_loop_def new_branch_def)
  have i2: "analyzer_inv (open_block (Analyzer []))"
    by (simp add: analyzer_inv_def Analyzer_def open_block_def new_block_def)
  have m: "BreakStmt \<in> set [CommandStmt (Command ''p'' []), BreakStmt]" by simp
  have l0: "loop_nesting_level (Analyzer []) = 0" "block_nesting_level (Analyzer []) = 0"
    by (simp_all add: Analyzer_def)
  have l1: "loop_nesting_level (open_loop (Analyzer [])) = 1"
    by (simp add: Analyzer_def open_loop_def)
  have l2: "block_nesting_level (open_block (Analyzer [])) = 1"
    by (simp add: Analyzer_def open_block_def)
  from return_and_break_legality
         [OF i0, of "''f''" "[]" "[CommandStmt (Command ''p'' []), BreakStmt]"
            "IdentExpression ''f''" "OpaqueExpression ''c''"]
       return_and_break_legality
         [OF i1, of "''f''" "[]" "[CommandStmt (Command ''p'' []), BreakStmt]"
            "IdentExpression ''f''" "OpaqueExpression ''c''"]
       return_and_break_legality
         [OF i2, of "''f''" "[]" "[CommandStmt (Command ''p'' []), BreakStmt]"
            "IdentExpression ''f''" "OpaqueExpression ''c''"]
       m l0 l1 l2
  show ?thesis
    by (simp del: sem_stmt.simps)
qed

section \<open>Cleanup cannot fail\<close>

text \<open>
  C10. The analyzer starts in a state satisfying the invariant: the variables active in
  the current scope are distinct, each is declared on the path up to the nearest block
  boundary, and each has an id below the counter. A block scope starts with no active
  variable and a branch scope with those of its parent, so entering either keeps the
  invariant, and so does every statement analysed. In such a state the cleanup of an early
  return succeeds, and no statement raises one of the three lifetime errors (already active,
  not local to the block, inactive).
\<close>

theorem cleanup_cannot_fail:
  "analyzer_inv (Analyzer prog) \<and>
   active_vars (new_block sc) = [] \<and>
   active_vars (new_branch sc) = active_vars sc \<and>
   (analyzer_inv st \<longrightarrow>
      list_all (\<lambda>v. is_block_local_var (scope st) v = Inr True \<and>
                     declared_before_block (scope st) v) (active_vars (scope st)) \<and>
      (\<exists>st'. gen_cleanup_all_vars st =
                Inr (StmtList (map KillVarStmt (rev (active_vars (scope st)))), st')) \<and>
      analyzer_inv (open_block st) \<and> analyzer_inv (open_loop st) \<and>
      analyzer_inv (st\<lparr> scope := new_branch (scope st) \<rparr>) \<and>
      (case sem_stmt st s of
         Inl e \<Rightarrow> \<not> lifetime_error e
       | Inr (r, st') \<Rightarrow> analyzer_inv st') \<and>
      (case sem_stmts st ss of
         Inl e \<Rightarrow> \<not> lifetime_error e
       | Inr (rs, st') \<Rightarrow> analyzer_inv st')) \<and>
   (case analyze_program (Analyzer prog) of
      Inl e \<Rightarrow> \<not> lifetime_error e
    | Inr st' \<Rightarrow> analyzer_inv st')"
proof -
  have init: "analyzer_inv (Analyzer prog)"
    by (simp add: analyzer_inv_def Analyzer_def)
  have step: "case sem_stmt a s of Inl e \<Rightarrow> \<not> lifetime_error e | Inr (r, b) \<Rightarrow> analyzer_inv b"
    if "analyzer_inv a" for a s
    using that sem_inv(1)[of a s] sem_no_lifetime_error(1)[of a s]
    by (cases "sem_stmt a s") auto
  have steps: "case sem_stmts a ss of Inl e \<Rightarrow> \<not> lifetime_error e | Inr (r, b) \<Rightarrow> analyzer_inv b"
    if "analyzer_inv a" for a ss
    using that sem_inv(2)[of a ss] sem_no_lifetime_error(2)[of a ss]
    by (cases "sem_stmts a ss") auto
  have loc: "list_all (\<lambda>v. is_block_local_var (scope st) v = Inr True \<and>
                     declared_before_block (scope st) v) (active_vars (scope st))"
    if "analyzer_inv st"
    using that by (auto simp: analyzer_inv_def list_all_iff is_block_local_var_declared)
  have prog: "case analyze_program (Analyzer prog) of
      Inl e \<Rightarrow> \<not> lifetime_error e
    | Inr st' \<Rightarrow> analyzer_inv st'"
  proof (cases "sem_stmts (Analyzer prog) (stmts (Analyzer prog))")
    case (Inl e)
    with steps[OF init, of "stmts (Analyzer prog)"] show ?thesis
      by (simp add: analyze_program_def)
  next
    case (Inr p)
    then obtain rs b where r: "sem_stmts (Analyzer prog) (stmts (Analyzer prog)) = Inr (rs, b)"
      by (cases p) simp
    with steps[OF init, of "stmts (Analyzer prog)"] have "analyzer_inv b" by simp
    then have "analyzer_inv (b\<lparr> stmts := rs \<rparr>)"
      by (simp add: analyzer_inv_def)
    with r show ?thesis by (simp add: analyze_program_def)
  qed
  show ?thesis
    using init prog loc gen_cleanup_ok[of st] analyzer_inv_block[of st]
      analyzer_inv_branch[of st] step[of st s] steps[of st ss]
    by (simp add: new_block_def new_branch_def)
qed

theorem cleanup_cannot_fail_witness:
  "analyzer_inv
     \<lparr> scope =
         Scope (Some (Scope (Some (Scope None [Symbol ''f'' 0 block] {} [] {} True))
                        [Symbol '':anonymous:'' 1 variable] {}
                        [Symbol '':anonymous:'' 1 variable] {} True))
           [Symbol '':anonymous:'' 2 variable] {}
           [Symbol '':anonymous:'' 1 variable, Symbol '':anonymous:'' 2 variable] {} False,
       next_sym_id = 3, block_defs = [], stmts = [], block_nesting_level = 1,
       loop_nesting_level = 1, loop_nesting_stack = [0], defnodes = [] \<rparr> \<and>
   is_block_local_var
     (Scope (Some (Scope (Some (Scope None [Symbol ''f'' 0 block] {} [] {} True))
                     [Symbol '':anonymous:'' 1 variable] {}
                     [Symbol '':anonymous:'' 1 variable] {} True))
        [Symbol '':anonymous:'' 2 variable] {}
        [Symbol '':anonymous:'' 1 variable, Symbol '':anonymous:'' 2 variable] {} False)
     (Symbol '':anonymous:'' 1 variable) = Inr True \<and>
   gen_cleanup_all_vars
     \<lparr> scope =
         Scope (Some (Scope (Some (Scope None [Symbol ''f'' 0 block] {} [] {} True))
                        [Symbol '':anonymous:'' 1 variable] {}
                        [Symbol '':anonymous:'' 1 variable] {} True))
           [Symbol '':anonymous:'' 2 variable] {}
           [Symbol '':anonymous:'' 1 variable, Symbol '':anonymous:'' 2 variable] {} False,
       next_sym_id = 3, block_defs = [], stmts = [], block_nesting_level = 1,
       loop_nesting_level = 1, loop_nesting_stack = [0], defnodes = [] \<rparr>
   = Inr (StmtList [KillVarStmt (Symbol '':anonymous:'' 2 variable),
                    KillVarStmt (Symbol '':anonymous:'' 1 variable)],
          \<lparr> scope =
              Scope (Some (Scope (Some (Scope None [Symbol ''f'' 0 block] {} [] {} True))
                             [Symbol '':anonymous:'' 1 variable] {}
                             [Symbol '':anonymous:'' 1 variable] {} True))
                [Symbol '':anonymous:'' 2 variable] {} []
                {Symbol '':anonymous:'' 1 variable, Symbol '':anonymous:'' 2 variable} False,
            next_sym_id = 3, block_defs = [], stmts = [], block_nesting_level = 1,
            loop_nesting_level = 1, loop_nesting_stack = [0], defnodes = [] \<rparr>) \<and>
   sem_stmt
     \<lparr> scope =
         Scope (Some (Scope (Some (Scope None [Symbol ''f'' 0 block] {} [] {} True))
                        [Symbol '':anonymous:'' 1 variable] {}
                        [Symbol '':anonymous:'' 1 variable] {} True))
           [Symbol '':anonymous:'' 2 variable] {}
           [Symbol '':anonymous:'' 1 variable, Symbol '':anonymous:'' 2 variable] {} False,
       next_sym_id = 3, block_defs = [], stmts = [], block_nesting_level = 1,
       loop_nesting_level = 1, loop_nesting_stack = [0], defnodes = [] \<rparr>
     (CallStmt (IdentExpression ''g'')) = Inl (SemError (UnableToFindSymbol ''g'')) \<and>
   \<not> lifetime_error (SemError (UnableToFindSymbol ''g''))"
  using cleanup_cannot_fail
    [of "[]" "Scope None [] {} [] {} True"
        "\<lparr> scope =
         Scope (Some (Scope (Some (Scope None [Symbol ''f'' 0 block] {} [] {} True))
                        [Symbol '':anonymous:'' 1 variable] {}
                        [Symbol '':anonymous:'' 1 variable] {} True))
           [Symbol '':anonymous:'' 2 variable] {}
           [Symbol '':anonymous:'' 1 variable, Symbol '':anonymous:'' 2 variable] {} False,
       next_sym_id = 3, block_defs = [], stmts = [], block_nesting_level = 1,
       loop_nesting_level = 1, loop_nesting_stack = [0], defnodes = [] \<rparr>"
        "CallStmt (IdentExpression ''g'')" "[]"]
  by (simp add: analyzer_inv_def analyzer_ops)

section \<open>Conditionals and post-condition repetition\<close>

lemma sem_If_result:
  assumes "sem_stmt st (IfStmt e t f) = Inr (r, st')"
  shows "\<exists>t1 st1 f1 st3.
           sem_stmt (st\<lparr> scope := new_branch (scope st) \<rparr>) t = Inr (t1, st1) \<and>
           sem_stmt (st1\<lparr> scope := new_branch (scope st) \<rparr>) f = Inr (f1, st3) \<and>
           r = IfStmt e t1 f1 \<and> st' = st3\<lparr> scope := scope st \<rparr>"
proof -
  from assms obtain t1 st1 st2 f1 st3 where
    t: "sem_stmt (st\<lparr> scope := new_branch (scope st) \<rparr>) t = Inr (t1, st1)" and
    p1: "scope_to_parent st1 = Inr st2" and
    f: "sem_stmt (st2\<lparr> scope := new_branch (scope st2) \<rparr>) f = Inr (f1, st3)" and
    p2: "scope_to_parent st3 = Inr st'" and r: "r = IfStmt (sem_expr e) t1 f1"
    by (rule sem_If_Inr)
  have f1: "frame (st\<lparr> scope := new_branch (scope st) \<rparr>) st1"
    using t by (rule sem_frame)
  have f2: "frame (st2\<lparr> scope := new_branch (scope st2) \<rparr>) st3"
    using f by (rule sem_frame)
  from p1 have s2: "st2 = st1\<lparr> scope := scope st \<rparr>"
    unfolding branch_close[OF f1] by simp
  from p2 have s4: "st' = st3\<lparr> scope := scope st2 \<rparr>"
    unfolding branch_close[OF f2] by simp
  from t f r s4 show ?thesis unfolding s2 by (auto simp: sem_expr_def)
qed

text \<open>
  C7. A branch scope starts with the active variables of its parent, as a value of its own:
  activating or killing in the branch gives a branch whose parent is the parent as it was.
  Each arm of a conditional is analysed in a branch scope made from the current scope (the
  second from the scope as it was before the first arm, not from what the first arm left),
  and after the conditional the current scope is the one before it: its active variables,
  declared symbols and cleaned variables are unchanged.
\<close>

theorem conditional_arms_isolated:
  "active_vars (new_branch p) = active_vars p \<and> parent (new_branch p) = Some p \<and>
   syms (new_branch p) = [] \<and> cleaned_vars (new_branch p) = {} \<and> \<not> is_block (new_branch p) \<and>
   (activate_var (new_branch p) x = Inr c \<longrightarrow>
      parent c = Some p \<and> active_vars c = active_vars p @ [x]) \<and>
   (kill_var (new_branch p) x = Inr c \<longrightarrow>
      parent c = Some p \<and> active_vars c = remove1 x (active_vars p)) \<and>
   (sem_stmt st (IfStmt e t f) = Inr (r, st') \<longrightarrow>
      scope st' = scope st \<and>
      active_vars (scope st') = active_vars (scope st) \<and>
      syms (scope st') = syms (scope st) \<and>
      cleaned_vars (scope st') = cleaned_vars (scope st) \<and>
      (\<exists>t1 st1 f1 st3.
          sem_stmt (st\<lparr> scope := new_branch (scope st) \<rparr>) t = Inr (t1, st1) \<and>
          sem_stmt (st1\<lparr> scope := new_branch (scope st) \<rparr>) f = Inr (f1, st3) \<and>
          r = IfStmt e t1 f1 \<and> st' = st3\<lparr> scope := scope st \<rparr>))"
proof -
  have a: "parent c = Some p \<and> active_vars c = active_vars p @ [x]"
    if "activate_var (new_branch p) x = Inr c"
    using that by (auto simp: activate_var_def new_branch_def split: if_splits)
  have k: "parent c = Some p \<and> active_vars c = remove1 x (active_vars p)"
    if "kill_var (new_branch p) x = Inr c"
    using kill_var_sel(1,4)[OF that] by (simp add: new_branch_def)
  have i: "scope st' = scope st \<and>
      active_vars (scope st') = active_vars (scope st) \<and>
      syms (scope st') = syms (scope st) \<and>
      cleaned_vars (scope st') = cleaned_vars (scope st) \<and>
      (\<exists>t1 st1 f1 st3.
          sem_stmt (st\<lparr> scope := new_branch (scope st) \<rparr>) t = Inr (t1, st1) \<and>
          sem_stmt (st1\<lparr> scope := new_branch (scope st) \<rparr>) f = Inr (f1, st3) \<and>
          r = IfStmt e t1 f1 \<and> st' = st3\<lparr> scope := scope st \<rparr>)"
    if s: "sem_stmt st (IfStmt e t f) = Inr (r, st')"
  proof -
    have "scope st' = scope st" using s by (rule sem_branching_scope) blast
    with sem_If_result[OF s] show ?thesis by simp
  qed
  from a k i show ?thesis by (simp add: new_branch_def)
qed

theorem conditional_arms_isolated_witness:
  "kill_var (new_branch (Scope (Some (Scope None [Symbol ''f'' 0 block] {} [] {} True))
        [Symbol '':anonymous:'' 1 variable] {} [Symbol '':anonymous:'' 1 variable] {} True)) (Symbol '':anonymous:'' 1 variable)
     = Inr (Scope (Some (Scope (Some (Scope None [Symbol ''f'' 0 block] {} [] {} True))
        [Symbol '':anonymous:'' 1 variable] {} [Symbol '':anonymous:'' 1 variable] {} True)) [] {} [] {Symbol '':anonymous:'' 1 variable} False) \<and>
   sem_stmt
     \<lparr> scope =
         Scope (Some (Scope (Some (Scope None [Symbol ''f'' 0 block] {} [] {} True))
                        [Symbol '':anonymous:'' 1 variable] {}
                        [Symbol '':anonymous:'' 1 variable] {} True))
           [] {} [Symbol '':anonymous:'' 1 variable] {} False,
       next_sym_id = 2, block_defs = [], stmts = [], block_nesting_level = 1,
       loop_nesting_level = 1, loop_nesting_stack = [0], defnodes = [] \<rparr>
     (IfStmt (OpaqueExpression ''c'') (StmtList [ReturnStmt]) (StmtList [ReturnStmt]))
   = Inr (IfStmt (OpaqueExpression ''c'')
            (StmtList [StmtList [StmtList [KillVarStmt (Symbol '':anonymous:'' 1 variable)],
                                 ReturnStmt]])
            (StmtList [StmtList [StmtList [KillVarStmt (Symbol '':anonymous:'' 1 variable)],
                                 ReturnStmt]]),
          \<lparr> scope =
         Scope (Some (Scope (Some (Scope None [Symbol ''f'' 0 block] {} [] {} True))
                        [Symbol '':anonymous:'' 1 variable] {}
                        [Symbol '':anonymous:'' 1 variable] {} True))
           [] {} [Symbol '':anonymous:'' 1 variable] {} False,
       next_sym_id = 2, block_defs = [], stmts = [], block_nesting_level = 1,
       loop_nesting_level = 1, loop_nesting_stack = [0], defnodes = [] \<rparr>)"
  using conditional_arms_isolated
    [of "(Scope (Some (Scope None [Symbol ''f'' 0 block] {} [] {} True))
        [Symbol '':anonymous:'' 1 variable] {} [Symbol '':anonymous:'' 1 variable] {} True)" "Symbol '':anonymous:'' 1 variable"
        "Scope (Some (Scope (Some (Scope None [Symbol ''f'' 0 block] {} [] {} True))
        [Symbol '':anonymous:'' 1 variable] {} [Symbol '':anonymous:'' 1 variable] {} True)) [] {} [] {Symbol '':anonymous:'' 1 variable} False"
        "\<lparr> scope =
         Scope (Some (Scope (Some (Scope None [Symbol ''f'' 0 block] {} [] {} True))
                        [Symbol '':anonymous:'' 1 variable] {}
                        [Symbol '':anonymous:'' 1 variable] {} True))
           [] {} [Symbol '':anonymous:'' 1 variable] {} False,
       next_sym_id = 2, block_defs = [], stmts = [], block_nesting_level = 1,
       loop_nesting_level = 1, loop_nesting_stack = [0], defnodes = [] \<rparr>" "OpaqueExpression ''c''" "StmtList [ReturnStmt]" "StmtList [ReturnStmt]"
        "IfStmt (OpaqueExpression ''c'')
            (StmtList [StmtList [StmtList [KillVarStmt (Symbol '':anonymous:'' 1 variable)],
                                 ReturnStmt]])
            (StmtList [StmtList [StmtList [KillVarStmt (Symbol '':anonymous:'' 1 variable)],
                                 ReturnStmt]])"
        "\<lparr> scope =
         Scope (Some (Scope (Some (Scope None [Symbol ''f'' 0 block] {} [] {} True))
                        [Symbol '':anonymous:'' 1 variable] {}
                        [Symbol '':anonymous:'' 1 variable] {} True))
           [] {} [Symbol '':anonymous:'' 1 variable] {} False,
       next_sym_id = 2, block_defs = [], stmts = [], block_nesting_level = 1,
       loop_nesting_level = 1, loop_nesting_stack = [0], defnodes = [] \<rparr>"]
  by (simp add: analyzer_ops)

text \<open>
  C2. A post-condition repetition with guard \<open>g\<close> is analysed by analysing its body one
  repetition deeper, in a branch scope; an error of the body is the error of the statement.
  Otherwise the result is the conditional on the analysed guard with an empty true branch
  and, as false branch, the list of one until-region that carries the analysed guard and
  wraps the pre-condition repetition over the negated analysed guard and the analysed body.
  The guard is analysed into one value, which stands in all three places (and is the guard
  itself, expression analysis changing nothing); the scope and the repetition depth are
  afterwards what they were.
\<close>

theorem until_desugars_to_guarded_region:
  "sem_stmt st (UntilStmt g body) =
     (case sem_stmt (open_loop st) body of
        Inl e \<Rightarrow> Inl e
      | Inr (body1, st1) \<Rightarrow>
          (let expr = sem_expr g in
           Inr (IfStmt expr (StmtList [])
                  (StmtList
                     [UntilRegion expr
                        (WhileStmt
                           (UnaryExpression
                              (Token keyword_not ''not'' (LineInfo (- 1) (- 1) (- 1))) expr)
                           body1)]),
                st1\<lparr> scope := scope st, loop_nesting_level := loop_nesting_level st \<rparr>))) \<and>
   sem_expr g = g"
proof (cases "sem_stmt (open_loop st) body")
  case (Inl e)
  then show ?thesis by (simp add: Let_def sem_expr_def)
next
  case (Inr p)
  then obtain body1 st1 where b: "sem_stmt (open_loop st) body = Inr (body1, st1)"
    by (cases p) simp
  have f: "frame (open_loop st) st1" using b by (rule sem_frame)
  show ?thesis
    using b open_loop_close[OF f] by (simp add: Let_def sem_expr_def)
qed

theorem until_desugars_to_guarded_region_witness:
  "sem_stmt (Analyzer [])
     (UntilStmt (OpaqueExpression ''done'') (StmtList [CommandStmt (Command ''p1'' []), BreakStmt]))
   = Inr (IfStmt (OpaqueExpression ''done'') (StmtList [])
            (StmtList
               [UntilRegion (OpaqueExpression ''done'')
                  (WhileStmt
                     (UnaryExpression (Token keyword_not ''not'' (LineInfo (- 1) (- 1) (- 1)))
                        (OpaqueExpression ''done''))
                     (StmtList [CommandStmt (Command ''p1'' []), BreakStmt]))]),
          (Analyzer [])\<lparr> loop_nesting_level := 0 \<rparr>)"
  using until_desugars_to_guarded_region
    [of "Analyzer []" "OpaqueExpression ''done''"
        "StmtList [CommandStmt (Command ''p1'' []), BreakStmt]"]
  by (simp add: analyzer_ops)

section \<open>Counted repetition\<close>

lemma sem_stmts_snoc_write:
  "sem_stmts st (B @ [WriteVarStmt v e]) =
     (case sem_stmts st B of
        Inl x \<Rightarrow> Inl x
      | Inr (B1, st1) \<Rightarrow> Inr (B1 @ [WriteVarStmt v e], st1))"
  by (simp add: sem_stmts_append split: sum.splits)

text \<open>
  C1. When the analysis of a counted repetition with count \<open>n\<close> and body \<open>B\<close> returns, it
  returns the list of exactly four statements: the declaration of a new variable named
  \<^verbatim>\<open>:anonymous:\<close> whose id is the symbol counter, the write of \<open>n\<close> to it, the analysis of the
  pre-condition repetition on "variable > 0" over \<open>B\<close> with the decrement appended (which is
  that repetition over the analysed \<open>B\<close> followed by the decrement), and the kill of the
  variable. The variable was not active before and is not active afterwards. It is
  generated by this statement, and it differs from every symbol generated earlier in the
  run, whose id is smaller: from every symbol \<open>s\<close> generated in a state from whose successor
  the analyzer has come to the state of this statement. In a state of the analysis the
  statement fails only with an error of the analysis of \<open>B\<close>.
\<close>

theorem counted_repetition_desugars:
  "(sem_stmt st (TimesStmt n (StmtList B)) = Inr (r, st') \<longrightarrow>
      (\<exists>v cond dec B1 st1 st2 st3.
          v = Symbol '':anonymous:'' (next_sym_id st) variable \<and>
          cond = GreaterExpression (ReadVarExpr (SymExpression v)) (NumberExpression 0) \<and>
          dec = WriteVarStmt v (SubExpression (ReadVarExpr (SymExpression v)) (NumberExpression 1)) \<and>
          def_var st = Inr (v, st1) \<and>
          sem_stmts (open_loop st1) B = Inr (B1, st2) \<and>
          sem_stmt st1 (WhileStmt cond (StmtList (B @ [dec])))
            = Inr (WhileStmt cond (StmtList (B1 @ [dec])), st3) \<and>
          r = StmtList [DefVarStmt v, WriteVarStmt v (NumberExpression n),
                        WhileStmt cond (StmtList (B1 @ [dec])), KillVarStmt v] \<and>
          v \<notin> set (active_vars (scope st)) \<and>
          active_vars (scope st') = active_vars (scope st) \<and>
          v \<in> cleaned_vars (scope st') \<and>
          generates st v st1 \<and> reaches st1 st' \<and>
          (\<forall>a s a'. generates a s a' \<and> reaches a' st \<longrightarrow> sym_id s < sym_id v \<and> s \<noteq> v))) \<and>
   (analyzer_inv st \<and> sem_stmt st (TimesStmt n (StmtList B)) = Inl e \<longrightarrow>
      (\<exists>v st1. def_var st = Inr (v, st1) \<and> sem_stmts (open_loop st1) B = Inl e))"
proof (intro conjI impI)
  assume s: "sem_stmt st (TimesStmt n (StmtList B)) = Inr (r, st')"
  then obtain v st1 ss w st3 where
    d: "def_var st = Inr (v, st1)" and b: "stmts_of (StmtList B) = Some ss" and
    w: "sem_stmt st1
       (WhileStmt (GreaterExpression (ReadVarExpr (SymExpression v)) (NumberExpression 0))
          (StmtList (ss @ [WriteVarStmt v
             (SubExpression (ReadVarExpr (SymExpression v)) (NumberExpression 1))])))
      = Inr (w, st3)" and
    m: "mark_var_dead st3 v = Inr st'" and
    r: "r = StmtList [DefVarStmt v, WriteVarStmt v (NumberExpression n), w, KillVarStmt v]"
    by (rule sem_Times_Inr)
  let ?cond = "GreaterExpression (ReadVarExpr (SymExpression v)) (NumberExpression 0)"
  let ?dec = "WriteVarStmt v (SubExpression (ReadVarExpr (SymExpression v)) (NumberExpression 1))"
  from b have ss: "ss = B" by simp
  from w obtain body1 st2 where
    l: "sem_stmt (open_loop st1) (StmtList (B @ [?dec])) = Inr (body1, st2)" and
    w': "w = WhileStmt (sem_expr ?cond) body1"
    unfolding ss by (rule sem_While_Inr)
  from l obtain res where
    l': "sem_stmts (open_loop st1) (B @ [?dec]) = Inr (res, st2)" and b1: "body1 = StmtList res"
    by (rule sem_StmtList_Inr)
  from l' obtain B1 where
    B1: "sem_stmts (open_loop st1) B = Inr (B1, st2)" and res: "res = B1 @ [?dec]"
    by (auto simp: sem_stmts_snoc_write split: sum.splits)
  have wv: "w = WhileStmt ?cond (StmtList (B1 @ [?dec]))"
    by (simp add: w' b1 res sem_expr_def)
  note dv = def_var_Inr[OF d]
  from dv have v: "v = Symbol '':anonymous:'' (next_sym_id st) variable"
    and nv: "v \<notin> set (active_vars (scope st))" by blast+
  from m obtain sc where k: "kill_var (scope st3) v = Inr sc" and st': "st' = st3\<lparr>scope := sc\<rparr>"
    by (auto simp: mark_var_dead_Inr)
  have cl: "v \<in> cleaned_vars (scope st')"
    by (simp add: st' kill_var_sel(5)[OF k])
  have gen: "generates st v st1" using d by (simp add: generates_def)
  have cont: "reaches st1 st'" using d s by (rule times_continuation)
  have fresh: "sym_id s < sym_id v \<and> s \<noteq> v" if "generates a s a' \<and> reaches a' st" for a s a'
  proof -
    from that generates_next_sym_id[of a s a'] reaches_next_sym_id[of a' st]
    have "sym_id s < sym_id v" by (simp add: v)
    then show ?thesis by auto
  qed
  from v d B1 w[unfolded ss wv] r[unfolded wv] nv sem_Times_scope[OF s] cl gen cont fresh
  show "\<exists>v cond dec B1 st1 st2 st3.
          v = Symbol '':anonymous:'' (next_sym_id st) variable \<and>
          cond = GreaterExpression (ReadVarExpr (SymExpression v)) (NumberExpression 0) \<and>
          dec = WriteVarStmt v (SubExpression (ReadVarExpr (SymExpression v)) (NumberExpression 1)) \<and>
          def_var st = Inr (v, st1) \<and>
          sem_stmts (open_loop st1) B = Inr (B1, st2) \<and>
          sem_stmt st1 (WhileStmt cond (StmtList (B @ [dec])))
            = Inr (WhileStmt cond (StmtList (B1 @ [dec])), st3) \<and>
          r = StmtList [DefVarStmt v, WriteVarStmt v (NumberExpression n),
                        WhileStmt cond (StmtList (B1 @ [dec])), KillVarStmt v] \<and>
          v \<notin> set (active_vars (scope st)) \<and>
          active_vars (scope st') = active_vars (scope st) \<and>
          v \<in> cleaned_vars (scope st') \<and>
          generates st v st1 \<and> reaches st1 st' \<and>
          (\<forall>a s a'. generates a s a' \<and> reaches a' st \<longrightarrow> sym_id s < sym_id v \<and> s \<noteq> v)"
    by blast
next
  assume a: "analyzer_inv st \<and> sem_stmt st (TimesStmt n (StmtList B)) = Inl e"
  then have inv: "analyzer_inv st" and err: "sem_stmt st (TimesStmt n (StmtList B)) = Inl e"
    by simp_all
  from def_var_ok[OF inv] obtain v st1 where
    d: "def_var st = Inr (v, st1)" and i1: "analyzer_inv st1" and
    a1: "active_vars (scope st1) = active_vars (scope st) @ [v]" by blast
  let ?cond = "GreaterExpression (ReadVarExpr (SymExpression v)) (NumberExpression 0)"
  let ?dec = "WriteVarStmt v (SubExpression (ReadVarExpr (SymExpression v)) (NumberExpression 1))"
  have "sem_stmts (open_loop st1) B = Inl e"
  proof (cases "sem_stmts (open_loop st1) B")
    case (Inl x)
    with err d show ?thesis
      by (simp add: Let_def sem_stmts_snoc_write)
  next
    case (Inr p)
    then obtain B1 st2 where B1: "sem_stmts (open_loop st1) B = Inr (B1, st2)"
      by (cases p) simp
    then have body: "sem_stmt (open_loop st1) (StmtList (B @ [?dec]))
                       = Inr (StmtList (B1 @ [?dec]), st2)"
      by (simp add: sem_stmts_snoc_write)
    have f: "frame (open_loop st1) st2" using body by (rule sem_frame)
    have w: "sem_stmt st1 (WhileStmt ?cond (StmtList (B @ [?dec]))) =
               Inr (WhileStmt ?cond (StmtList (B1 @ [?dec])),
                    st2\<lparr> scope := scope st1, loop_nesting_level := loop_nesting_level st1 \<rparr>)"
      using body open_loop_close[OF f]
      by (simp add: Let_def sem_expr_def del: sem_stmt.simps(2))
    have "v \<in> set (active_vars (scope st1))" by (simp add: a1)
    moreover have "is_block_local_var (scope st1) v = Inr True"
      using i1 by (simp add: analyzer_inv_def a1)
    ultimately obtain st4 where
      "mark_var_dead (st2\<lparr> scope := scope st1, loop_nesting_level := loop_nesting_level st1 \<rparr>) v
         = Inr st4"
      using mark_var_dead_ok[of v "st2\<lparr> scope := scope st1, loop_nesting_level := loop_nesting_level st1 \<rparr>"]
      by auto
    with err d w show ?thesis
      by (simp add: Let_def del: sem_stmt.simps(7))
  qed
  with d show "\<exists>v st1. def_var st = Inr (v, st1) \<and> sem_stmts (open_loop st1) B = Inl e"
    by blast
qed

theorem counted_repetition_desugars_witness:
  "sem_stmt (Analyzer []) (TimesStmt 2 (StmtList []))
     = Inr (StmtList
       [DefVarStmt (Symbol '':anonymous:'' 0 variable), WriteVarStmt (Symbol '':anonymous:'' 0 variable) (NumberExpression 2),
        WhileStmt (GreaterExpression (ReadVarExpr (SymExpression (Symbol '':anonymous:'' 0 variable))) (NumberExpression 0))
          (StmtList [WriteVarStmt (Symbol '':anonymous:'' 0 variable)
                       (SubExpression (ReadVarExpr (SymExpression (Symbol '':anonymous:'' 0 variable))) (NumberExpression 1))]),
        KillVarStmt (Symbol '':anonymous:'' 0 variable)],
     \<lparr> scope = Scope None [Symbol '':anonymous:'' 0 variable] {} [] {Symbol '':anonymous:'' 0 variable} True, next_sym_id = 1, block_defs = [], stmts = [],
       block_nesting_level = 0, loop_nesting_level = 0, loop_nesting_stack = [], defnodes = [] \<rparr>) \<and>
   sem_stmt
     \<lparr> scope = Scope None [Symbol '':anonymous:'' 0 variable] {} [] {Symbol '':anonymous:'' 0 variable} True, next_sym_id = 1, block_defs = [], stmts = [],
       block_nesting_level = 0, loop_nesting_level = 0, loop_nesting_stack = [], defnodes = [] \<rparr>
     (TimesStmt 3 (StmtList [CommandStmt (Command ''p1'' [])]))
     = Inr (StmtList
       [DefVarStmt (Symbol '':anonymous:'' 1 variable), WriteVarStmt (Symbol '':anonymous:'' 1 variable) (NumberExpression 3),
        WhileStmt (GreaterExpression (ReadVarExpr (SymExpression (Symbol '':anonymous:'' 1 variable))) (NumberExpression 0))
          (StmtList [CommandStmt (Command ''p1'' []),
                     WriteVarStmt (Symbol '':anonymous:'' 1 variable)
                       (SubExpression (ReadVarExpr (SymExpression (Symbol '':anonymous:'' 1 variable))) (NumberExpression 1))]),
        KillVarStmt (Symbol '':anonymous:'' 1 variable)],
     \<lparr> scope = Scope None [Symbol '':anonymous:'' 0 variable, Symbol '':anonymous:'' 1 variable] {} [] {Symbol '':anonymous:'' 1 variable, Symbol '':anonymous:'' 0 variable} True, next_sym_id = 2, block_defs = [],
       stmts = [], block_nesting_level = 0, loop_nesting_level = 0, loop_nesting_stack = [],
       defnodes = [] \<rparr>) \<and>
   generates (Analyzer []) (Symbol '':anonymous:'' 0 variable)
     \<lparr> scope = Scope None [Symbol '':anonymous:'' 0 variable] {} [Symbol '':anonymous:'' 0 variable] {} True, next_sym_id = 1, block_defs = [], stmts = [],
       block_nesting_level = 0, loop_nesting_level = 0, loop_nesting_stack = [], defnodes = [] \<rparr> \<and>
   reaches
     \<lparr> scope = Scope None [Symbol '':anonymous:'' 0 variable] {} [Symbol '':anonymous:'' 0 variable] {} True, next_sym_id = 1, block_defs = [], stmts = [],
       block_nesting_level = 0, loop_nesting_level = 0, loop_nesting_stack = [], defnodes = [] \<rparr>
     \<lparr> scope = Scope None [Symbol '':anonymous:'' 0 variable] {} [] {Symbol '':anonymous:'' 0 variable} True, next_sym_id = 1, block_defs = [], stmts = [],
       block_nesting_level = 0, loop_nesting_level = 0, loop_nesting_stack = [], defnodes = [] \<rparr> \<and>
   sym_id (Symbol '':anonymous:'' 0 variable) < sym_id (Symbol '':anonymous:'' 1 variable) \<and>
   Symbol '':anonymous:'' 0 variable \<noteq> Symbol '':anonymous:'' 1 variable \<and>
   analyzer_inv (Analyzer []) \<and>
   sem_stmt (Analyzer []) (TimesStmt 3 (StmtList [BreakStmt, NoneStmt]))
     = Inl (SemError UnhandledStatement)"
proof -
  let ?A0 = "Analyzer []"
  let ?v0 = "Symbol '':anonymous:'' 0 variable" and ?v1 = "Symbol '':anonymous:'' 1 variable"
  let ?A1 = "\<lparr> scope = Scope None [Symbol '':anonymous:'' 0 variable] {} [Symbol '':anonymous:'' 0 variable] {} True, next_sym_id = 1, block_defs = [], stmts = [],
       block_nesting_level = 0, loop_nesting_level = 0, loop_nesting_stack = [], defnodes = [] \<rparr>"
  let ?B1 = "\<lparr> scope = Scope None [Symbol '':anonymous:'' 0 variable] {} [] {Symbol '':anonymous:'' 0 variable} True, next_sym_id = 1, block_defs = [], stmts = [],
       block_nesting_level = 0, loop_nesting_level = 0, loop_nesting_stack = [], defnodes = [] \<rparr>"
  let ?B3 = "\<lparr> scope = Scope None [Symbol '':anonymous:'' 0 variable, Symbol '':anonymous:'' 1 variable] {} [] {Symbol '':anonymous:'' 1 variable, Symbol '':anonymous:'' 0 variable} True, next_sym_id = 2, block_defs = [],
       stmts = [], block_nesting_level = 0, loop_nesting_level = 0, loop_nesting_stack = [],
       defnodes = [] \<rparr>"
  let ?R0 = "StmtList
       [DefVarStmt (Symbol '':anonymous:'' 0 variable), WriteVarStmt (Symbol '':anonymous:'' 0 variable) (NumberExpression 2),
        WhileStmt (GreaterExpression (ReadVarExpr (SymExpression (Symbol '':anonymous:'' 0 variable))) (NumberExpression 0))
          (StmtList [WriteVarStmt (Symbol '':anonymous:'' 0 variable)
                       (SubExpression (ReadVarExpr (SymExpression (Symbol '':anonymous:'' 0 variable))) (NumberExpression 1))]),
        KillVarStmt (Symbol '':anonymous:'' 0 variable)]"
  let ?R1 = "StmtList
       [DefVarStmt (Symbol '':anonymous:'' 1 variable), WriteVarStmt (Symbol '':anonymous:'' 1 variable) (NumberExpression 3),
        WhileStmt (GreaterExpression (ReadVarExpr (SymExpression (Symbol '':anonymous:'' 1 variable))) (NumberExpression 0))
          (StmtList [CommandStmt (Command ''p1'' []),
                     WriteVarStmt (Symbol '':anonymous:'' 1 variable)
                       (SubExpression (ReadVarExpr (SymExpression (Symbol '':anonymous:'' 1 variable))) (NumberExpression 1))]),
        KillVarStmt (Symbol '':anonymous:'' 1 variable)]"
  have t0: "sem_stmt ?A0 (TimesStmt 2 (StmtList [])) = Inr (?R0, ?B1)"
    by (simp add: analyzer_ops)
  have t1: "sem_stmt ?B1 (TimesStmt 3 (StmtList [CommandStmt (Command ''p1'' [])])) = Inr (?R1, ?B3)"
    by (simp add: analyzer_ops)
  have d0: "def_var ?A0 = Inr (?v0, ?A1)" by (simp add: analyzer_ops)
  have i0: "analyzer_inv ?A0" by (simp add: analyzer_inv_def Analyzer_def)
  have e: "sem_stmt ?A0 (TimesStmt 3 (StmtList [BreakStmt, NoneStmt]))
             = Inl (SemError UnhandledStatement)"
    by (simp add: analyzer_ops)
  from counted_repetition_desugars
         [where st = ?A0 and n = 2 and B = "[]" and r = ?R0 and st' = ?B1] t0 d0
  have g0: "generates ?A0 ?v0 ?A1" and r0: "reaches ?A1 ?B1" by auto
  from counted_repetition_desugars
         [where st = ?B1 and n = 3 and B = "[CommandStmt (Command ''p1'' [])]" and r = ?R1
            and st' = ?B3] t1
  obtain v where v: "v = Symbol '':anonymous:'' (next_sym_id ?B1) variable" and
    f: "\<forall>a s a'. generates a s a' \<and> reaches a' ?B1 \<longrightarrow> sym_id s < sym_id v \<and> s \<noteq> v"
    by blast
  from v have v1: "v = ?v1" by simp
  from f g0 r0 have "sym_id ?v0 < sym_id ?v1 \<and> ?v0 \<noteq> ?v1" unfolding v1 by blast
  with t0 t1 g0 r0 i0 e show ?thesis by blast
qed


section \<open>Routine definitions\<close>

lemma cleanup_loop_kills:
  "cleanup_loop n st res = Inr (res', st') \<Longrightarrow>
     \<exists>ks. res' = res @ map KillVarStmt ks \<and> block_defs st' = block_defs st"
proof (induction n st res rule: cleanup_loop.induct)
  case (1 st res)
  then show ?case by simp
next
  case (2 i st res)
  show ?case
  proof (cases "i < length (active_vars (scope st))")
    case True
    let ?v = "active_vars (scope st) ! i"
    from True "2.prems" obtain st1 where
      m: "mark_var_dead st ?v = Inr st1" and
      r: "cleanup_loop i st1 (res @ [KillVarStmt ?v]) = Inr (res', st')"
      by (auto simp: Let_def split: sum.splits)
    from "2.IH"[OF True refl m r] obtain ks where
      "res' = (res @ [KillVarStmt ?v]) @ map KillVarStmt ks" "block_defs st' = block_defs st1"
      by blast
    moreover from m have "block_defs st1 = block_defs st" by (auto simp: mark_var_dead_Inr)
    ultimately have "res' = res @ map KillVarStmt (?v # ks) \<and> block_defs st' = block_defs st"
      by simp
    then show ?thesis by blast
  next
    case False
    with "2.prems" show ?thesis by simp
  qed
qed

lemma gen_cleanup_kills:
  "gen_cleanup_all_vars st = Inr (c, st') \<Longrightarrow>
     (\<exists>ks. c = StmtList (map KillVarStmt ks)) \<and> block_defs st' = block_defs st"
  by (auto simp: gen_cleanup_all_vars_def split: sum.splits dest!: cleanup_loop_kills)

lemma has_block_def_kills: "\<not> list_ex has_block_def (map KillVarStmt ks)"
  by (induction ks) auto

lemma sem_result_none:
  assumes "sem_stmt st s = Inr (r, st')"
  shows "r = NoneStmt \<longleftrightarrow> is_block_def s"
proof (cases s)
  case (BlockDefStmt n b)
  from assms[unfolded BlockDefStmt] have "r = NoneStmt" by (rule sem_BlockDef_Inr)
  then show ?thesis by (simp add: BlockDefStmt)
next
  case (StmtList ss)
  from assms[unfolded StmtList] have "r \<noteq> NoneStmt" by (rule sem_StmtList_Inr) simp
  then show ?thesis by (simp add: StmtList)
next
  case (CallStmt n)
  with assms show ?thesis by (auto split: expression.splits sum.splits)
next
  case (IfStmt e t f)
  from assms[unfolded IfStmt] have "r \<noteq> NoneStmt" by (rule sem_If_Inr) simp
  then show ?thesis by (simp add: IfStmt)
next
  case (LoopStmt b)
  from assms[unfolded LoopStmt] have "r \<noteq> NoneStmt" by (rule sem_Loop_Inr) simp
  then show ?thesis by (simp add: LoopStmt)
next
  case (WhileStmt e b)
  from assms[unfolded WhileStmt] have "r \<noteq> NoneStmt" by (rule sem_While_Inr) simp
  then show ?thesis by (simp add: WhileStmt)
next
  case (UntilStmt e b)
  from assms[unfolded UntilStmt] have "r \<noteq> NoneStmt" by (rule sem_Until_Inr) simp
  then show ?thesis by (simp add: UntilStmt)
next
  case (TimesStmt n b)
  from assms[unfolded TimesStmt] have "r \<noteq> NoneStmt" by (rule sem_Times_Inr) simp
  then show ?thesis by (simp add: TimesStmt)
next
  case ReturnStmt
  from assms[unfolded ReturnStmt] have "r \<noteq> NoneStmt" by (rule sem_Return_Inr) simp
  then show ?thesis by (simp add: ReturnStmt)
next
  case BreakStmt
  with assms show ?thesis by (auto split: if_splits)
qed (use assms in auto)

lemma sem_no_block_def:
  "sem_stmt st s = Inr (r, st') \<Longrightarrow> \<not> has_block_def r"
  "sem_stmts st ss = Inr (rs, st') \<Longrightarrow> \<not> list_ex has_block_def rs"
proof (induction st s and st ss arbitrary: r st' and rs st' rule: sem_induct)
  case (BlockDef st name body)
  from BlockDef.prems have "r = NoneStmt" by (rule sem_BlockDef_Inr)
  then show ?case by simp
next
  case (StmtList st ss)
  from StmtList.prems obtain res where "sem_stmts st ss = Inr (res, st')" "r = StmtList res"
    by (rule sem_StmtList_Inr)
  with StmtList.IH show ?case by simp
next
  case (Call st name)
  then show ?case by (auto split: expression.splits sum.splits)
next
  case (If st e t f)
  from If.prems obtain t1 st1 st2 f1 st3 where
    t: "sem_stmt (st\<lparr> scope := new_branch (scope st) \<rparr>) t = Inr (t1, st1)" and
    p1: "scope_to_parent st1 = Inr st2" and
    f: "sem_stmt (st2\<lparr> scope := new_branch (scope st2) \<rparr>) f = Inr (f1, st3)" and
    r: "r = IfStmt (sem_expr e) t1 f1"
    by (rule sem_If_Inr)
  from If.IH(1)[OF t] If.IH(2)[OF t p1 f] show ?case by (simp add: r)
next
  case (Loop st body)
  from Loop.prems obtain body1 st1 where
    "sem_stmt (open_loop st) body = Inr (body1, st1)" "r = LoopStmt body1"
    by (rule sem_Loop_Inr)
  with Loop.IH show ?case by simp
next
  case (While st e body)
  from While.prems obtain body1 st1 where
    "sem_stmt (open_loop st) body = Inr (body1, st1)" "r = WhileStmt (sem_expr e) body1"
    by (rule sem_While_Inr)
  with While.IH show ?case by simp
next
  case (Until st e body)
  from Until.prems obtain body1 st1 where
    "sem_stmt (open_loop st) body = Inr (body1, st1)"
    "r = IfStmt (sem_expr e) (StmtList [])
           (StmtList [UntilRegion (sem_expr e)
              (WhileStmt (UnaryExpression (Token keyword_not ''not'' (LineInfo (- 1) (- 1) (- 1)))
                            (sem_expr e)) body1)])"
    by (rule sem_Until_Inr)
  with Until.IH show ?case by simp
next
  case (Times st num body)
  from Times.prems obtain v st1 ss w st2 where
    d: "def_var st = Inr (v, st1)" and b: "stmts_of body = Some ss" and
    w: "sem_stmt st1
       (WhileStmt (GreaterExpression (ReadVarExpr (SymExpression v)) (NumberExpression 0))
          (StmtList (ss @ [WriteVarStmt v
             (SubExpression (ReadVarExpr (SymExpression v)) (NumberExpression 1))])))
      = Inr (w, st2)" and
    r: "r = StmtList [DefVarStmt v, WriteVarStmt v (NumberExpression num), w, KillVarStmt v]"
    by (rule sem_Times_Inr)
  from Times.IH[OF d b w] show ?case by (simp add: r)
next
  case (Return st)
  from Return.prems obtain c where
    c: "gen_cleanup_all_vars st = Inr (c, st')" and r: "r = StmtList [c, ReturnStmt]"
    by (rule sem_Return_Inr)
  from gen_cleanup_kills[OF c] obtain ks where "c = StmtList (map KillVarStmt ks)" by blast
  then show ?case by (simp add: r has_block_def_kills)
next
  case (Break st)
  then show ?case by (auto split: if_splits)
next
  case (Cons st x xs)
  from Cons.prems obtain y st1 ys where
    a: "sem_stmt st x = Inr (y, st1)" and b: "sem_stmts st1 xs = Inr (ys, st')" and
    rs: "rs = (if y \<noteq> NoneStmt then [y] else []) @ ys"
    by (rule sem_stmts_Cons_Inr)
  from Cons.IH(1)[OF a] Cons.IH(2)[OF a b] show ?case by (simp add: rs)
qed auto

lemma sem_stmts_in_order:
  "sem_stmts st ss = Inr (rs, st') \<Longrightarrow>
     list_all (\<lambda>y. y \<noteq> NoneStmt) rs \<and>
     list_all2 (\<lambda>s y. \<exists>a b. sem_stmt a s = Inr (y, b)) (filter (\<lambda>s. \<not> is_block_def s) ss) rs"
proof (induction ss arbitrary: st rs)
  case Nil
  then show ?case by simp
next
  case (Cons x xs)
  from Cons.prems obtain y st1 ys where
    a: "sem_stmt st x = Inr (y, st1)" and b: "sem_stmts st1 xs = Inr (ys, st')" and
    rs: "rs = (if y \<noteq> NoneStmt then [y] else []) @ ys"
    by (rule sem_stmts_Cons_Inr)
  from sem_result_none[OF a] Cons.IH[OF b] a show ?case
    by (auto simp: rs)
qed

lemma sem_block_defs:
  "sem_stmt st s = Inr (r, st') \<Longrightarrow> \<exists>ext. block_defs st' = block_defs st @ ext"
  "sem_stmts st ss = Inr (rs, st') \<Longrightarrow> \<exists>ext. block_defs st' = block_defs st @ ext"
proof (induction st s and st ss arbitrary: r st' and rs st' rule: sem_induct)
  case (BlockDef st name body)
  from BlockDef.prems obtain nm s st1 ss body1 st2 st3 where
    n: "name = IdentExpression nm" and g: "gen_block_sym st nm = (s, st1)" and
    b: "stmts_of body = Some ss" and
    r: "sem_stmt (open_block st1) (StmtList (ss @ [ReturnStmt])) = Inr (body1, st2)" and
    c: "close_block st2 = Inr st3" and
    st': "st' = st3\<lparr> defnodes := defnodes st3 @ [(s, BlockDefStmt (SymExpression s) body1)],
                 block_defs := block_defs st3 @ [BlockDefStmt (SymExpression s) body1] \<rparr>"
    by (rule sem_BlockDef_Inr)
  from BlockDef.IH[OF n g b r] obtain ext where
    "block_defs st2 = block_defs (open_block st1) @ ext" by blast
  moreover from g have "block_defs st1 = block_defs st"
    by (auto simp: gen_block_sym_def gen_sym_id_def Let_def)
  moreover from c have "block_defs st3 = block_defs st2"
    by (auto simp: close_block_def scope_to_parent_def split: option.splits if_splits)
  ultimately show ?case by (simp add: st' open_block_def)
next
  case (StmtList st ss)
  then show ?case by (auto split: sum.splits)
next
  case (Call st name)
  then show ?case by (auto split: expression.splits sum.splits)
next
  case (If st e t f)
  from If.prems obtain t1 st1 st2 f1 st3 where
    t: "sem_stmt (st\<lparr> scope := new_branch (scope st) \<rparr>) t = Inr (t1, st1)" and
    p1: "scope_to_parent st1 = Inr st2" and
    f: "sem_stmt (st2\<lparr> scope := new_branch (scope st2) \<rparr>) f = Inr (f1, st3)" and
    p2: "scope_to_parent st3 = Inr st'"
    by (rule sem_If_Inr)
  from If.IH(1)[OF t] If.IH(2)[OF t p1 f] p1 p2 show ?case
    by (auto simp: scope_to_parent_def split: option.splits)
next
  case (Loop st body)
  from Loop.prems obtain body1 st1 where
    b: "sem_stmt (open_loop st) body = Inr (body1, st1)" and c: "close_loop st1 = Inr st'"
    by (rule sem_Loop_Inr)
  from Loop.IH[OF b] c show ?case
    by (auto simp: close_loop_def open_loop_def scope_to_parent_def split: option.splits)
next
  case (While st e body)
  from While.prems obtain body1 st1 where
    b: "sem_stmt (open_loop st) body = Inr (body1, st1)" and c: "close_loop st1 = Inr st'"
    by (rule sem_While_Inr)
  from While.IH[OF b] c show ?case
    by (auto simp: close_loop_def open_loop_def scope_to_parent_def split: option.splits)
next
  case (Until st e body)
  from Until.prems obtain body1 st1 where
    b: "sem_stmt (open_loop st) body = Inr (body1, st1)" and c: "close_loop st1 = Inr st'"
    by (rule sem_Until_Inr)
  from Until.IH[OF b] c show ?case
    by (auto simp: close_loop_def open_loop_def scope_to_parent_def split: option.splits)
next
  case (Times st num body)
  from Times.prems obtain v st1 ss w st2 where
    d: "def_var st = Inr (v, st1)" and b: "stmts_of body = Some ss" and
    w: "sem_stmt st1
       (WhileStmt (GreaterExpression (ReadVarExpr (SymExpression v)) (NumberExpression 0))
          (StmtList (ss @ [WriteVarStmt v
             (SubExpression (ReadVarExpr (SymExpression v)) (NumberExpression 1))])))
      = Inr (w, st2)" and
    m: "mark_var_dead st2 v = Inr st'"
    by (rule sem_Times_Inr)
  from Times.IH[OF d b w] def_var_Inr[OF d] m show ?case
    by (auto simp: mark_var_dead_Inr)
next
  case (Return st)
  from Return.prems obtain c where "gen_cleanup_all_vars st = Inr (c, st')"
    by (rule sem_Return_Inr)
  from gen_cleanup_kills[OF this] show ?case by simp
next
  case (Break st)
  then show ?case by (auto split: if_splits)
next
  case (Cons st x xs)
  from Cons.prems obtain y st1 ys where
    a: "sem_stmt st x = Inr (y, st1)" and b: "sem_stmts st1 xs = Inr (ys, st')"
    by (rule sem_stmts_Cons_Inr)
  from Cons.IH(1)[OF a] Cons.IH(2)[OF a b] show ?case by auto
qed auto

text \<open>
  C9. The analysis of a routine definition named by a plain identifier returns nothing. It
  declares a routine symbol of that name with the current counter as id, analyses the body
  with a return appended (so the analysed body ends with the rewritten return: cleanup,
  then return) one routine deeper, and appends the definition, named by the symbol and
  holding the analysed body, to the collected definitions, after those collected before
  and inside the body. A result is nothing exactly for a routine definition, and no
  result holds a routine definition anywhere. The results of a statement list are the
  results of its statements that are not routine definitions, in their order, and so is the
  output of the whole program.
\<close>

theorem routine_definitions_hoisted:
  "(sem_stmt st (BlockDefStmt (IdentExpression nm) (StmtList B)) = Inr (r, st') \<longrightarrow>
      r = NoneStmt \<and>
      (\<exists>f B1 c st1 st2 nested.
          f = Symbol nm (next_sym_id st) block \<and>
          sem_stmts (open_block (snd (gen_block_sym st nm))) B = Inr (B1, st1) \<and>
          sem_stmt st1 ReturnStmt = Inr (StmtList [c, ReturnStmt], st2) \<and>
          block_nesting_level st1 = block_nesting_level st + 1 \<and>
          block_defs st' =
            block_defs st @ nested @
              [BlockDefStmt (SymExpression f) (StmtList (B1 @ [StmtList [c, ReturnStmt]]))] \<and>
          scope st' = put_sym (scope st) f)) \<and>
   (sem_stmt st s = Inr (r, st') \<longrightarrow> (r = NoneStmt \<longleftrightarrow> is_block_def s) \<and> \<not> has_block_def r) \<and>
   (sem_stmts st ss = Inr (rs, st') \<longrightarrow>
      list_all (\<lambda>y. y \<noteq> NoneStmt \<and> \<not> has_block_def y) rs \<and>
      list_all2 (\<lambda>s y. \<exists>a b. sem_stmt a s = Inr (y, b))
        (filter (\<lambda>s. \<not> is_block_def s) ss) rs) \<and>
   (analyze_program st = Inr st' \<longrightarrow>
      list_all (\<lambda>y. y \<noteq> NoneStmt \<and> \<not> has_block_def y) (stmts st') \<and>
      list_all2 (\<lambda>s y. \<exists>a b. sem_stmt a s = Inr (y, b))
        (filter (\<lambda>s. \<not> is_block_def s) (stmts st)) (stmts st'))"
proof -
  have def: "r = NoneStmt \<and>
      (\<exists>f B1 c st1 st2 nested.
          f = Symbol nm (next_sym_id st) block \<and>
          sem_stmts (open_block (snd (gen_block_sym st nm))) B = Inr (B1, st1) \<and>
          sem_stmt st1 ReturnStmt = Inr (StmtList [c, ReturnStmt], st2) \<and>
          block_nesting_level st1 = block_nesting_level st + 1 \<and>
          block_defs st' =
            block_defs st @ nested @
              [BlockDefStmt (SymExpression f) (StmtList (B1 @ [StmtList [c, ReturnStmt]]))] \<and>
          scope st' = put_sym (scope st) f)"
    if s: "sem_stmt st (BlockDefStmt (IdentExpression nm) (StmtList B)) = Inr (r, st')"
  proof -
    from s obtain nm' f st0 ss body1 st2 st3 where
      n: "IdentExpression nm = IdentExpression nm'" and g: "gen_block_sym st nm' = (f, st0)" and
      b: "stmts_of (StmtList B) = Some ss" and
      bd: "sem_stmt (open_block st0) (StmtList (ss @ [ReturnStmt])) = Inr (body1, st2)" and
      c: "close_block st2 = Inr st3" and r: "r = NoneStmt" and
      st': "st' = st3\<lparr> defnodes := defnodes st3 @ [(f, BlockDefStmt (SymExpression f) body1)],
                   block_defs := block_defs st3 @ [BlockDefStmt (SymExpression f) body1] \<rparr>"
      by (rule sem_BlockDef_Inr)
    from n b have nm: "nm' = nm" and ss: "ss = B" by simp_all
    from g have f: "f = Symbol nm (next_sym_id st) block" and st0: "st0 = snd (gen_block_sym st nm)"
      and d0: "block_defs st0 = block_defs st"
      by (auto simp: nm gen_block_sym_def gen_sym_id_def Let_def)
    from bd obtain res where
      l: "sem_stmts (open_block st0) (B @ [ReturnStmt]) = Inr (res, st2)" and
      b1: "body1 = StmtList res"
      unfolding ss by (rule sem_StmtList_Inr)
    from l obtain B1 st1 y where
      B1: "sem_stmts (open_block st0) B = Inr (B1, st1)" and
      ret: "sem_stmt st1 ReturnStmt = Inr (y, st2)" and
      res: "res = B1 @ (if y \<noteq> NoneStmt then [y] else [])"
      by (auto simp: sem_stmts_append split: sum.splits simp del: sem_stmt.simps(10))
    from ret obtain c' where y: "y = StmtList [c', ReturnStmt]" by (rule sem_Return_Inr)
    have lvl: "block_nesting_level st1 = block_nesting_level st + 1"
      using sem_frame(2)[OF B1] g
      by (auto simp: frame_def open_block_def gen_block_sym_def gen_sym_id_def Let_def)
    from sem_block_defs(1)[OF bd] obtain nested where
      "block_defs st2 = block_defs (open_block st0) @ nested" by blast
    then have d2: "block_defs st2 = block_defs st @ nested" by (simp add: open_block_def d0)
    from c have d3: "block_defs st3 = block_defs st2"
      by (auto simp: close_block_def scope_to_parent_def split: option.splits if_splits)
    have defs: "block_defs st' = block_defs st @ nested @
              [BlockDefStmt (SymExpression f) (StmtList (B1 @ [StmtList [c', ReturnStmt]]))]"
      by (simp add: st' d3 d2 b1 res y)
    from sem_BlockDef_scope[OF s] have sc: "scope st' = put_sym (scope st) f"
      by (simp add: f)
    from r f B1[unfolded st0] ret[unfolded y] lvl defs sc show ?thesis by blast
  qed
  have one: "(r = NoneStmt \<longleftrightarrow> is_block_def s) \<and> \<not> has_block_def r"
    if "sem_stmt st s = Inr (r, st')"
    using sem_result_none[OF that] sem_no_block_def(1)[OF that] by simp
  have many: "list_all (\<lambda>y. y \<noteq> NoneStmt \<and> \<not> has_block_def y) rs \<and>
      list_all2 (\<lambda>s y. \<exists>a b. sem_stmt a s = Inr (y, b))
        (filter (\<lambda>s. \<not> is_block_def s) ss) rs"
    if "sem_stmts a ss = Inr (rs, b)" for a ss rs b
    using sem_stmts_in_order[OF that] sem_no_block_def(2)[OF that]
    by (auto simp: list_all_iff list_ex_iff)
  have prog: "list_all (\<lambda>y. y \<noteq> NoneStmt \<and> \<not> has_block_def y) (stmts st') \<and>
      list_all2 (\<lambda>s y. \<exists>a b. sem_stmt a s = Inr (y, b))
        (filter (\<lambda>s. \<not> is_block_def s) (stmts st)) (stmts st')"
    if p: "analyze_program st = Inr st'"
  proof -
    from p obtain rs b where "sem_stmts st (stmts st) = Inr (rs, b)" "stmts st' = rs"
      by (auto simp: analyze_program_def split: sum.splits)
    with many[of st "stmts st" rs b] show ?thesis by simp
  qed
  from def one many[of st ss rs st'] prog show ?thesis by blast
qed

theorem routine_definitions_hoisted_witness:
  "analyze_program (Analyzer
     [CommandStmt (Command ''pa'' []),
      BlockDefStmt (IdentExpression ''f'') (StmtList [CommandStmt (Command ''pb'' [])]),
      CommandStmt (Command ''pc'' [])])
   = Inr \<lparr> scope = Scope None [Symbol ''f'' 0 block] {''pc'', ''pa''} [] {} True, next_sym_id = 1,
            block_defs =
              [BlockDefStmt (SymExpression (Symbol ''f'' 0 block))
                  (StmtList [CommandStmt (Command ''pb'' []), StmtList [StmtList [], ReturnStmt]])],
            stmts = [CommandStmt (Command ''pa'' []), CommandStmt (Command ''pc'' [])],
            block_nesting_level = 0, loop_nesting_level = 0, loop_nesting_stack = [],
            defnodes =
              [(Symbol ''f'' 0 block,
                BlockDefStmt (SymExpression (Symbol ''f'' 0 block))
                  (StmtList [CommandStmt (Command ''pb'' []), StmtList [StmtList [], ReturnStmt]]))] \<rparr> \<and>
   sem_stmt (Analyzer [])
     (BlockDefStmt (IdentExpression ''f'') (StmtList [CommandStmt (Command ''pb'' [])]))
   = Inr (NoneStmt,
          \<lparr> scope = Scope None [Symbol ''f'' 0 block] {} [] {} True, next_sym_id = 1,
            block_defs =
              [BlockDefStmt (SymExpression (Symbol ''f'' 0 block))
                  (StmtList [CommandStmt (Command ''pb'' []), StmtList [StmtList [], ReturnStmt]])],
            stmts = [],
            block_nesting_level = 0, loop_nesting_level = 0, loop_nesting_stack = [],
            defnodes =
              [(Symbol ''f'' 0 block,
                BlockDefStmt (SymExpression (Symbol ''f'' 0 block))
                  (StmtList [CommandStmt (Command ''pb'' []), StmtList [StmtList [], ReturnStmt]]))] \<rparr>)"
  using routine_definitions_hoisted
    [of "Analyzer []" "''f''" "[CommandStmt (Command ''pb'' [])]" NoneStmt
        "\<lparr> scope = Scope None [Symbol ''f'' 0 block] {} [] {} True, next_sym_id = 1,
            block_defs =
              [BlockDefStmt (SymExpression (Symbol ''f'' 0 block))
                  (StmtList [CommandStmt (Command ''pb'' []), StmtList [StmtList [], ReturnStmt]])],
            stmts = [],
            block_nesting_level = 0, loop_nesting_level = 0, loop_nesting_stack = [],
            defnodes =
              [(Symbol ''f'' 0 block,
                BlockDefStmt (SymExpression (Symbol ''f'' 0 block))
                  (StmtList [CommandStmt (Command ''pb'' []), StmtList [StmtList [], ReturnStmt]]))] \<rparr>"
        "BlockDefStmt (IdentExpression ''f'') (StmtList [CommandStmt (Command ''pb'' [])])"
        "[]" "[]"]
    routine_definitions_hoisted
    [of "Analyzer
     [CommandStmt (Command ''pa'' []),
      BlockDefStmt (IdentExpression ''f'') (StmtList [CommandStmt (Command ''pb'' [])]),
      CommandStmt (Command ''pc'' [])]" "''f''" "[]" NoneStmt
        "\<lparr> scope = Scope None [Symbol ''f'' 0 block] {''pc'', ''pa''} [] {} True, next_sym_id = 1,
            block_defs =
              [BlockDefStmt (SymExpression (Symbol ''f'' 0 block))
                  (StmtList [CommandStmt (Command ''pb'' []), StmtList [StmtList [], ReturnStmt]])],
            stmts = [CommandStmt (Command ''pa'' []), CommandStmt (Command ''pc'' [])],
            block_nesting_level = 0, loop_nesting_level = 0, loop_nesting_stack = [],
            defnodes =
              [(Symbol ''f'' 0 block,
                BlockDefStmt (SymExpression (Symbol ''f'' 0 block))
                  (StmtList [CommandStmt (Command ''pb'' []), StmtList [StmtList [], ReturnStmt]]))] \<rparr>"
        "NoneStmt" "[]" "[]"]
  by (simp add: analyzer_ops)

end
